theory Spec2Isabelle
  imports Main "HOL-Library.Sublist" "HOL-Library.Multiset"
begin

section \<open>The summarize route: a shallow embedding of \<open>src/app/api/summarize/route.ts\<close>\<close>

text \<open>
  The route answers a question in six numbered steps: a Google Custom Search for Reddit
  links, one Reddit fetch and one language-model summary per submission found, a lexical
  relevance filter, a final synthesis call, a confidence score and the JSON response.

  JavaScript strings are modelled as \<^typ>\<open>string\<close>, a character being one UTF-16 code unit
  in the range U+0000 to U+00FF. Numbers that the route handles (comment scores, HTTP status
  codes, counts) are integers and are modelled as \<^typ>\<open>int\<close> or \<^typ>\<open>nat\<close>.
  The three remote services are parameters of the model (record \<open>env\<close> below), so every
  theorem holds for whatever they answer.
\<close>

subsection \<open>Constants\<close>

definition MAX_REDDIT_POSTS_TO_PROCESS :: nat where
  "MAX_REDDIT_POSTS_TO_PROCESS = 5"

definition MAX_COMMENTS_PER_POST :: nat where
  "MAX_COMMENTS_PER_POST = 3"

definition IRRELEVANT_SUMMARY_KEYWORDS :: "string list" where
  "IRRELEVANT_SUMMARY_KEYWORDS =
     [''does not provide any information'',
      ''is not about'',
      ''no relevant information'',
      ''unrelated to the question'',
      ''has nothing to do with'',
      ''not relevant to the question'',
      ''irrelevant to the question'']"

subsection \<open>String primitives of the runtime\<close>

text \<open>\<open>String.prototype.toLowerCase\<close> on U+0000..U+00FF: the letters A-Z and the Latin-1
  capitals U+00C0..U+00DE (without the multiplication sign U+00D7) move up by 32.\<close>

definition lower_char :: "char \<Rightarrow> char" where
  "lower_char c =
     (let n = (of_char c :: nat)
      in if (65 \<le> n \<and> n \<le> 90) \<or> (192 \<le> n \<and> n \<le> 222 \<and> n \<noteq> 215)
         then char_of (n + 32) else c)"

definition toLowerCase :: "string \<Rightarrow> string" where
  "toLowerCase s = map lower_char s"

text \<open>\<open>s.includes(k)\<close>: \<open>k\<close> occurs in \<open>s\<close> at some position (case-sensitive).\<close>

fun includes_str :: "string \<Rightarrow> string \<Rightarrow> bool" where
  "includes_str [] k = (k = [])"
| "includes_str (c # cs) k = (prefix k (c # cs) \<or> includes_str cs k)"

text \<open>\<open>String.prototype.trim\<close>: white space and line terminators of U+0000..U+00FF
  (TAB, LF, VT, FF, CR, SPACE, NBSP) are removed at both ends.\<close>

definition is_space :: "char \<Rightarrow> bool" where
  "is_space c = ((of_char c :: nat) \<in> {9, 10, 11, 12, 13, 32, 160})"

definition trim :: "string \<Rightarrow> string" where
  "trim s = rev (dropWhile is_space (rev (dropWhile is_space s)))"

text \<open>Decimal rendering of a non-negative integer inside a template literal.\<close>

fun show_nat :: "nat \<Rightarrow> string" where
  "show_nat n =
     (if n < 10 then [char_of (48 + n)]
      else show_nat (n div 10) @ [char_of (48 + n mod 10)])"

declare show_nat.simps [simp del]

text \<open>\<open>Array.prototype.join\<close>.\<close>

fun join :: "string \<Rightarrow> string list \<Rightarrow> string" where
  "join sep [] = []"
| "join sep [x] = x"
| "join sep (x # y # ys) = x @ sep @ join sep (y # ys)"

subsection \<open>The regular expression of \<open>extractRedditSubmissionId\<close>\<close>

text \<open>
  The pattern is \<^verbatim>\<open>/reddit\.com\/r\/[^\/]+\/comments\/([a-z0-9]{6,10})(\/|$)/i\<close>.
  A backtracking matcher is modelled by lists of successes: every component returns the
  ways it can match at the start of its input, in the order in which the engine tries them
  (a greedy quantifier tries the longest repetition first), and the first success of the
  whole pattern is the match.

  With the \<open>i\<close> flag and without the \<open>u\<close> flag two code units match when their
  canonical forms (the upper-case forms) are equal. On U+0000..U+00FF the letters a-z and
  U+00E0..U+00FE (without the division sign U+00F7) move down by 32; U+00B5, U+00DF and
  U+00FF stay, their upper-case forms being outside the range or longer than one unit.
\<close>

definition canonicalize :: "char \<Rightarrow> char" where
  "canonicalize c =
     (let n = (of_char c :: nat)
      in if (97 \<le> n \<and> n \<le> 122) \<or> (224 \<le> n \<and> n \<le> 254 \<and> n \<noteq> 247)
         then char_of (n - 32) else c)"

text \<open>A literal piece of the pattern, matched unit by unit: the remaining input after it,
  if it matches.\<close>

fun lit :: "string \<Rightarrow> string \<Rightarrow> string list" where
  "lit [] s = [s]"
| "lit (p # ps) [] = []"
| "lit (p # ps) (c # cs) = (if canonicalize p = canonicalize c then lit ps cs else [])"

text \<open>The class \<^verbatim>\<open>[a-z0-9]\<close> under the \<open>i\<close> flag, and the class \<^verbatim>\<open>[^\/]\<close>.\<close>

definition alnum :: "char \<Rightarrow> bool" where
  "alnum c =
     (let n = (of_char (canonicalize c) :: nat)
      in (65 \<le> n \<and> n \<le> 90) \<or> (48 \<le> n \<and> n \<le> 57))"

definition not_slash :: "char \<Rightarrow> bool" where
  "not_slash c = (canonicalize c \<noteq> canonicalize CHR ''/'')"

text \<open>A greedy quantifier \<open>{lo,hi}\<close> over a character class: the pairs (matched text,
  remaining input) in the order of backtracking. One more repetition is tried first; stopping
  here comes after it, once the minimum is reached. For \<open>+\<close> the upper bound is the length of
  the input.\<close>

fun rep :: "(char \<Rightarrow> bool) \<Rightarrow> nat \<Rightarrow> nat \<Rightarrow> string \<Rightarrow> (string \<times> string) list" where
  "rep P lo hi [] = (if lo = 0 then [([], [])] else [])"
| "rep P lo hi (c # cs) =
     (if 0 < hi \<and> P c then map (\<lambda>(m, r). (c # m, r)) (rep P (lo - 1) (hi - 1) cs) else [])
     @ (if lo = 0 then [([], c # cs)] else [])"

text \<open>The group \<^verbatim>\<open>(\/|$)\<close>: a slash, or else the end of the input.\<close>

definition slash_or_end :: "string \<Rightarrow> string list" where
  "slash_or_end s = lit ''/'' s @ (if s = [] then [s] else [])"

text \<open>Group 1 of every way the pattern matches at the start of \<open>s\<close>, in priority order.\<close>

definition match_here :: "string \<Rightarrow> string list" where
  "match_here s =
     [g1. r1 \<leftarrow> lit ''reddit.com/r/'' s,
          (sub, r2) \<leftarrow> rep not_slash 1 (length r1) r1,
          r3 \<leftarrow> lit ''/comments/'' r2,
          (g1, r4) \<leftarrow> rep alnum 6 10 r3,
          r5 \<leftarrow> slash_or_end r4]"

text \<open>\<open>url.match(...)\<close>: the pattern is tried at each start position from the left.\<close>

fun regex_match :: "string \<Rightarrow> string option" where
  "regex_match [] = (case match_here [] of g1 # _ \<Rightarrow> Some g1 | [] \<Rightarrow> None)"
| "regex_match (c # cs) =
     (case match_here (c # cs) of g1 # _ \<Rightarrow> Some g1 | [] \<Rightarrow> regex_match cs)"

definition extractRedditSubmissionId :: "string \<Rightarrow> string option" where
  "extractRedditSubmissionId url = regex_match url"

subsection \<open>Helper functions\<close>

definition isSummaryRelevant :: "string \<Rightarrow> bool" where
  "isSummaryRelevant summary =
     (let lowerCaseSummary = toLowerCase summary
      in \<not> list_ex (\<lambda>keyword. includes_str lowerCaseSummary keyword)
                     IRRELEVANT_SUMMARY_KEYWORDS)"

definition calculateConfidence :: "int \<Rightarrow> int" where
  "calculateConfidence relevantSourcesCount =
     (let score = 50 + relevantSourcesCount * 10 in min score 95)"

subsection \<open>Data\<close>

text \<open>A value caught by a \<open>catch\<close> clause, as far as the route inspects it: whether it is
  an \<open>Error\<close> (and a \<open>SyntaxError\<close>), its \<open>message\<close>, and its numeric \<open>statusCode\<close>
  and \<open>status\<close> properties (\<open>None\<close>: the property is absent or not a number).\<close>

record thrown =
  instanceofError :: bool
  instanceofSyntaxError :: bool
  message :: string
  statusCode :: "int option"
  status :: "int option"

text \<open>A fetched submission. \<open>None\<close> stands for a missing property; for \<open>comments\<close> also
  for a value that is not an array; for \<open>score\<close> also for any other falsy value. Titles and
  bodies are strings. An element of the \<open>comments\<close> array is \<open>undefined\<close>, \<open>null\<close>, or a
  value whose \<open>body\<close> and \<open>score\<close> properties can be read.\<close>

record comment =
  body :: string
  score :: "int option"

datatype element = Undefined | Null | Obj comment

record submission =
  title :: string
  selftext :: "string option"
  permalink :: "string option"
  comments :: "element list option"

text \<open>The answer of the search service: \<open>fetch\<close> or \<open>json()\<close> throws, or a response with
  its \<open>ok\<close> flag and status, the \<open>error.message\<close> of its body and the \<open>items\<close> of its
  body. An element of \<open>items\<close> is \<open>None\<close> when it is falsy.\<close>

datatype item = Item (link: "string option")

datatype search_outcome =
    SearchThrows thrown
  | SearchResponse (ok: bool) (http_status: nat) (error_message: "string option")
      (items: "item option list option")

text \<open>A chat completion: the call (or the reading of its result) throws, or
  \<open>choices[0]?.message?.content\<close> is read (\<open>None\<close>: undefined or null).\<close>

datatype completion = CallThrows thrown | Content "string option"

text \<open>The environment of one request: the two configuration variables read at module
  load and the answers of the three services. A summary completion is indexed by the
  submission identifier and the prompt, so two calls with equal prompts may differ.\<close>

record env =
  GOOGLE_API_KEY :: "string option"
  GOOGLE_CSE_ID :: "string option"
  googleSearch :: search_outcome
  getSubmission :: "string \<Rightarrow> thrown + submission"
  summaryCompletion :: "string \<Rightarrow> string \<Rightarrow> completion"
  finalCompletion :: "string \<Rightarrow> completion"

text \<open>\<open>request.json()\<close> throws, or gives a body whose \<open>question\<close> is a string
  (\<open>None\<close>: missing or of another type).\<close>

datatype request = JsonThrows thrown | Json (question: "string option")

datatype response =
    Success (finalSummary: string) (sources: "string list") (confidenceScore: int)
  | Failure (error: string) (response_status: int)

record summary_entry =
  summary :: string
  source_link :: string

text \<open>The calls to Reddit and to the language model that a run performs, in order.\<close>

datatype event =
    FetchSubmission string
  | SummaryCall string string
  | FinalCall string

text \<open>Truthiness of an optional string, and \<open>x || d\<close> on it.\<close>

definition truthy :: "string option \<Rightarrow> bool" where
  "truthy x = (case x of None \<Rightarrow> False | Some s \<Rightarrow> s \<noteq> [])"

definition or_else :: "string option \<Rightarrow> string \<Rightarrow> string" where
  "or_else x d = (case x of None \<Rightarrow> d | Some s \<Rightarrow> if s = [] then d else s)"

subsection \<open>Step 1: Google Custom Search\<close>

text \<open>\<open>Set.prototype.add\<close> on a set kept as the list of its elements in insertion order,
  which is the order \<open>Array.from\<close> returns.\<close>

definition set_add :: "string list \<Rightarrow> string \<Rightarrow> string list" where
  "set_add foundIds x = (if x \<in> set foundIds then foundIds else foundIds @ [x])"

text \<open>The body of the \<open>for\<close> loop over \<open>googleData.items\<close>, before the \<open>break\<close> test.\<close>

definition visit_item :: "string list \<Rightarrow> item option \<Rightarrow> string list" where
  "visit_item foundIds it =
     (case it of
        None \<Rightarrow> foundIds
      | Some (Item None) \<Rightarrow> foundIds
      | Some (Item (Some l)) \<Rightarrow>
          if l \<noteq> [] \<and> includes_str l ''reddit.com''
          then (case extractRedditSubmissionId l of
                  Some submissionId \<Rightarrow>
                    if submissionId \<noteq> [] then set_add foundIds submissionId else foundIds
                | None \<Rightarrow> foundIds)
          else foundIds)"

fun collect_ids :: "string list \<Rightarrow> item option list \<Rightarrow> string list" where
  "collect_ids foundIds [] = foundIds"
| "collect_ids foundIds (it # rest) =
     (let foundIds' = visit_item foundIds it
      in if length foundIds' \<ge> MAX_REDDIT_POSTS_TO_PROCESS then foundIds'
         else collect_ids foundIds' rest)"

definition discover :: "item option list option \<Rightarrow> string list" where
  "discover its =
     (case its of
        None \<Rightarrow> []
      | Some xs \<Rightarrow> if length xs > 0 then collect_ids [] xs else [])"

text \<open>The \<open>catch\<close> clause of step 1.\<close>

definition searchCatch :: "thrown \<Rightarrow> response" where
  "searchCatch e =
     Failure (if instanceofError e then message e else ''Failed to perform Google search.'') 500"

definition searchStep :: "search_outcome \<Rightarrow> response + string list" where
  "searchStep out =
     (case out of
        SearchThrows e \<Rightarrow> Inl (searchCatch e)
      | SearchResponse isOk st msg its \<Rightarrow>
          if \<not> isOk
          then Inl (searchCatch
                 \<lparr>instanceofError = True, instanceofSyntaxError = False,
                  message = or_else msg (''Google Search API failed with status '' @ show_nat st),
                  statusCode = None, status = None\<rparr>)
          else Inr (discover its))"

subsection \<open>Step 2: Reddit content and initial summaries\<close>

definition effective_score :: "comment \<Rightarrow> int" where
  "effective_score c = (case score c of None \<Rightarrow> 0 | Some n \<Rightarrow> n)"

text \<open>The comparator \<open>(a, b) => (b.score || 0) - (a.score || 0)\<close>.\<close>

definition compareFn :: "comment \<Rightarrow> comment \<Rightarrow> int" where
  "compareFn a b = effective_score b - effective_score a"

text \<open>\<open>Array.prototype.sort\<close> is stable (ECMAScript 2019): with a consistent comparator
  the result is the one of a stable insertion sort, an element going in front of the first
  element that does not have to precede it.\<close>

fun insert_by :: "('a \<Rightarrow> 'a \<Rightarrow> int) \<Rightarrow> 'a \<Rightarrow> 'a list \<Rightarrow> 'a list" where
  "insert_by cmp x [] = [x]"
| "insert_by cmp x (y # ys) =
     (if cmp x y \<le> 0 then x # y # ys else y # insert_by cmp x ys)"

definition sort_by :: "('a \<Rightarrow> 'a \<Rightarrow> int) \<Rightarrow> 'a list \<Rightarrow> 'a list" where
  "sort_by cmp xs = foldr (insert_by cmp) xs []"

definition topComments :: "comment list \<Rightarrow> comment list" where
  "topComments cs = take MAX_COMMENTS_PER_POST (sort_by compareFn cs)"

text \<open>Reading a property of \<open>null\<close> or \<open>undefined\<close> throws a \<open>TypeError\<close>, which has
  neither a \<open>statusCode\<close> nor a \<open>status\<close>.\<close>

definition type_error :: thrown where
  "type_error = \<lparr>instanceofError = True, instanceofSyntaxError = False,
                  message = ''Cannot read properties of null'', statusCode = None,
                  status = None\<rparr>"

definition object_of :: "element \<Rightarrow> comment option" where
  "object_of x = (case x of Obj c \<Rightarrow> Some c | Undefined \<Rightarrow> None | Null \<Rightarrow> None)"

text \<open>The call \<open>submission.comments.sort(...)\<close> on an array with arbitrary elements. The
  runtime puts the \<open>undefined\<close> elements last without passing them to the comparator. A sort
  of two or more other elements passes each of them to the comparator at least once, and the
  comparator throws when it reads \<open>score\<close> of \<open>null\<close>; a single \<open>null\<close> is never compared.\<close>

definition sortComments :: "element list \<Rightarrow> thrown + element list" where
  "sortComments xs =
     (let present = filter (\<lambda>x. x \<noteq> Undefined) xs;
          absent = filter (\<lambda>x. x = Undefined) xs
      in if Null \<in> set present \<and> 2 \<le> length present then Inl type_error
         else if Null \<in> set present then Inr (present @ absent)
         else Inr (map Obj (sort_by compareFn (List.map_filter object_of present)) @ absent))"

text \<open>The reads of \<open>comment.body\<close> in \<open>topComments.map(...)\<close>: the selected comments, or
  \<open>None\<close> when an element is \<open>null\<close> or \<open>undefined\<close> and the read throws.\<close>

fun objects_of :: "element list \<Rightarrow> comment list option" where
  "objects_of [] = Some []"
| "objects_of (Obj c # xs) = (case objects_of xs of None \<Rightarrow> None | Some cs \<Rightarrow> Some (c # cs))"
| "objects_of (x # xs) = None"

definition nl :: string where
  "nl = [CHR 0x0A]"

definition commentsText :: "comment list \<Rightarrow> string" where
  "commentsText selected =
     join nl (map (\<lambda>(index, c). show_nat (index + 1) @ ''. '' @ body c) (enumerate 0 selected))"

definition summaryPrompt :: "string \<Rightarrow> submission \<Rightarrow> comment list \<Rightarrow> string" where
  "summaryPrompt q sub selected =
     ''Summarize the key advice or information from the following Reddit thread regarding the question \"''
     @ q @
     ''\". Focus ONLY on the aspects directly answering the question. If the thread is irrelevant to the question, please state that clearly (e.g., 'This thread is not relevant...').''
     @ nl @ nl @ ''Post Title: '' @ title sub
     @ nl @ ''Post Body: '' @ or_else (selftext sub) ''N/A''
     @ nl @ nl @ ''Top Comments:'' @ nl @ commentsText selected
     @ nl @ nl @ ''Summary:''"

text \<open>The \<open>catch\<close> clause inside the loop: \<open>Some\<close> response when the request ends there.\<close>

definition loopCatch :: "thrown \<Rightarrow> response option" where
  "loopCatch e =
     (if statusCode e = Some 401 then Some (Failure ''Reddit authentication failed.'' 401)
      else None)"

text \<open>One iteration of the loop over \<open>redditSubmissionIds\<close>: the request ends with a
  response, or the iteration pushes nothing, or it pushes one summary.\<close>

datatype outcome = Abort response | Skip | Pushed summary_entry

definition after_catch :: "thrown \<Rightarrow> outcome" where
  "after_catch e = (case loopCatch e of Some r \<Rightarrow> Abort r | None \<Rightarrow> Skip)"

definition processSubmission :: "env \<Rightarrow> string \<Rightarrow> string \<Rightarrow> outcome \<times> event list" where
  "processSubmission E q submissionId =
     (case getSubmission E submissionId of
        Inl e \<Rightarrow> (after_catch e, [FetchSubmission submissionId])
      | Inr sub \<Rightarrow>
          let postLink = ''https://reddit.com'' @ or_else (permalink sub) []
          in (case comments sub of
                None \<Rightarrow> (Skip, [FetchSubmission submissionId])
              | Some xs \<Rightarrow>
                  if length xs = 0 then (Skip, [FetchSubmission submissionId])
                  else (case sortComments xs of
                          Inl e \<Rightarrow> (after_catch e, [FetchSubmission submissionId])
                        | Inr ordered \<Rightarrow>
                            let selected = take MAX_COMMENTS_PER_POST ordered
                            in if length selected = 0
                               then (Skip, [FetchSubmission submissionId])
                               else (case objects_of selected of
                                       None \<Rightarrow>
                                         (after_catch type_error, [FetchSubmission submissionId])
                                     | Some cs \<Rightarrow>
                                         let prompt = summaryPrompt q sub cs;
                                             evs = [FetchSubmission submissionId,
                                                    SummaryCall submissionId prompt]
                                         in (case summaryCompletion E submissionId prompt of
                                               CallThrows e \<Rightarrow> (after_catch e, evs)
                                             | Content None \<Rightarrow> (Skip, evs)
                                             | Content (Some t) \<Rightarrow>
                                                 let summaryText = trim t
                                                 in if summaryText \<noteq> []
                                                    then (Pushed \<lparr>summary = summaryText,
                                                                   source_link = postLink\<rparr>,
                                                          evs)
                                                    else (Skip, evs))))))"

fun processAll ::
  "env \<Rightarrow> string \<Rightarrow> summary_entry list \<Rightarrow> string list
     \<Rightarrow> (response + summary_entry list) \<times> event list" where
  "processAll E q initialSummaries [] = (Inr initialSummaries, [])"
| "processAll E q initialSummaries (submissionId # rest) =
     (case processSubmission E q submissionId of
        (Abort r, evs) \<Rightarrow> (Inl r, evs)
      | (Skip, evs) \<Rightarrow>
          (case processAll E q initialSummaries rest of
             (res, evs') \<Rightarrow> (res, evs @ evs'))
      | (Pushed s, evs) \<Rightarrow>
          (case processAll E q (initialSummaries @ [s]) rest of
             (res, evs') \<Rightarrow> (res, evs @ evs')))"

subsection \<open>Steps 3 to 6: filter, synthesis, confidence, response\<close>

definition filterRelevant :: "summary_entry list \<Rightarrow> summary_entry list" where
  "filterRelevant initialSummaries =
     filter (\<lambda>s. isSummaryRelevant (summary s)) initialSummaries"

definition combinedContent :: "summary_entry list \<Rightarrow> string" where
  "combinedContent relevantSummaries =
     join (nl @ nl @ ''---'' @ nl @ nl)
       (map (\<lambda>(i, s). ''Relevant Summary From Source '' @ show_nat (i + 1)
                        @ '' ('' @ source_link s @ ''):'' @ nl @ summary s)
            (enumerate 0 relevantSummaries))"

definition synthesisPrompt :: "string \<Rightarrow> summary_entry list \<Rightarrow> string" where
  "synthesisPrompt q relevantSummaries =
     ''Act as a helpful assistant answering a user's question based *only* on information gathered from relevant Reddit discussions found via Google. The user asked: \"''
     @ q @ ''\"'' @ nl @ nl
     @ ''Here are summaries extracted from those discussions:'' @ nl
     @ combinedContent relevantSummaries @ nl @ nl
     @ ''Synthesize these summaries into a single, cohesive, and direct answer to the user's question. Structure the answer logically using markdown (like ## Headers, **bolding**, and bullet points *) for clear readability. ''
     @ nl @ nl
     @ ''If multiple apps, tools, or methods are recommended across the summaries, group them logically and briefly describe each, highlighting key features or benefits mentioned in the summaries. ''
     @ nl @ nl
     @ ''Focus on providing a helpful and informative response. Do *not* mention the process of summarizing or refer to the source summaries directly in the final output (e.g., avoid phrases like 'Based on the summaries...'). Start the answer directly.''
     @ nl @ nl
     @ ''Final Answer (in Markdown):''"

definition synthesize :: "env \<Rightarrow> string \<Rightarrow> summary_entry list \<Rightarrow> string" where
  "synthesize E q relevantSummaries =
     (case finalCompletion E (synthesisPrompt q relevantSummaries) of
        CallThrows e \<Rightarrow> ''Error occurred while synthesizing the final answer.''
      | Content None \<Rightarrow> ''Could not synthesize a final answer.''
      | Content (Some t) \<Rightarrow>
          if trim t \<noteq> [] then trim t else ''Could not synthesize a final answer.'')"

text \<open>The outer \<open>catch\<close> clause of the route.\<close>

definition outerCatch :: "thrown \<Rightarrow> response" where
  "outerCatch e =
     (if instanceofSyntaxError e then Failure ''Invalid JSON in request body.'' 400
      else Failure (if instanceofError e then message e else ''Failed to process request.'')
             (case status e of
                Some n \<Rightarrow> n
              | None \<Rightarrow> (case statusCode e of Some n \<Rightarrow> n | None \<Rightarrow> 500)))"

text \<open>The route after its input and configuration checks.\<close>

definition pipeline :: "env \<Rightarrow> string \<Rightarrow> response \<times> event list" where
  "pipeline E q =
     (case searchStep (googleSearch E) of
        Inl r \<Rightarrow> (r, [])
      | Inr redditSubmissionIds \<Rightarrow>
          if length redditSubmissionIds = 0
          then (Success ''Could not find relevant Reddit discussions via Google for this question.''
                  [] 0, [])
          else (case processAll E q [] redditSubmissionIds of
                  (Inl r, evs) \<Rightarrow> (r, evs)
                | (Inr initialSummaries, evs) \<Rightarrow>
                    let relevantSummaries = filterRelevant initialSummaries
                    in if length relevantSummaries = 0
                       then (Success ''Found some Reddit discussions via Google, but couldn't extract direct answers.''
                               [] 15, evs)
                       else let relevantSources = map source_link relevantSummaries;
                                finalSummaryText = synthesize E q relevantSummaries;
                                score = calculateConfidence (int (length relevantSources))
                            in (Success finalSummaryText relevantSources score,
                                evs @ [FinalCall (synthesisPrompt q relevantSummaries)])))"

definition POST :: "env \<Rightarrow> request \<Rightarrow> response \<times> event list" where
  "POST E req =
     (case req of
        JsonThrows e \<Rightarrow> (outerCatch e, [])
      | Json qo \<Rightarrow>
          (case qo of
             None \<Rightarrow> (Failure ''Invalid question provided'' 400, [])
           | Some q \<Rightarrow>
               if q = [] then (Failure ''Invalid question provided'' 400, [])
               else if \<not> truthy (GOOGLE_API_KEY E) \<or> \<not> truthy (GOOGLE_CSE_ID E)
               then (Failure ''Server configuration error.'' 500, [])
               else pipeline E q))"

subsection \<open>Notions used in the statements\<close>

text \<open>A request that passes the input check and the configuration check.\<close>

definition accepted :: "env \<Rightarrow> request \<Rightarrow> string \<Rightarrow> bool" where
  "accepted E req q =
     (req = Json (Some q) \<and> q \<noteq> [] \<and> truthy (GOOGLE_API_KEY E) \<and> truthy (GOOGLE_CSE_ID E))"

text \<open>The letters A-Z and a-z and the digits 0-9.\<close>

definition ascii_alnum :: "char \<Rightarrow> bool" where
  "ascii_alnum c =
     (let n = (of_char c :: nat)
      in (48 \<le> n \<and> n \<le> 57) \<or> (65 \<le> n \<and> n \<le> 90) \<or> (97 \<le> n \<and> n \<le> 122))"

text \<open>The URL shape that the pattern describes: somewhere in the URL, \<open>reddit.com/r/\<close>
  in any mix of cases, a non-empty subforum without a slash, \<open>/comments/\<close> in any mix of
  cases, the identifier of 6 to 10 letters and digits, and then a slash or the end.\<close>

definition thread_url_shape :: "string \<Rightarrow> string \<Rightarrow> bool" where
  "thread_url_shape url ident =
     (\<exists>pre d sub c rest.
        url = pre @ d @ sub @ c @ ident @ rest
        \<and> toLowerCase d = ''reddit.com/r/''
        \<and> sub \<noteq> [] \<and> CHR ''/'' \<notin> set sub
        \<and> toLowerCase c = ''/comments/''
        \<and> 6 \<le> length ident \<and> length ident \<le> 10 \<and> list_all ascii_alnum ident
        \<and> (rest = [] \<or> hd rest = CHR ''/''))"

text \<open>The two case mappings on character codes.\<close>

definition upper_code :: "nat \<Rightarrow> nat" where
  "upper_code n =
     (if (97 \<le> n \<and> n \<le> 122) \<or> (224 \<le> n \<and> n \<le> 254 \<and> n \<noteq> 247) then n - 32 else n)"

definition lower_code :: "nat \<Rightarrow> nat" where
  "lower_code n =
     (if (65 \<le> n \<and> n \<le> 90) \<or> (192 \<le> n \<and> n \<le> 222 \<and> n \<noteq> 215) then n + 32 else n)"

text \<open>The identifier that one search result contributes, if any.\<close>

definition candidate_of :: "item option \<Rightarrow> string option" where
  "candidate_of it =
     (case it of
        Some (Item (Some l)) \<Rightarrow>
          if includes_str l ''reddit.com'' then extractRedditSubmissionId l else None
      | _ \<Rightarrow> None)"

definition results_of :: "item option list option \<Rightarrow> item option list" where
  "results_of its = (case its of None \<Rightarrow> [] | Some xs \<Rightarrow> xs)"

text \<open>A list without its repetitions, every element staying at its first occurrence.\<close>

fun first_occurrences :: "'a list \<Rightarrow> 'a list" where
  "first_occurrences [] = []"
| "first_occurrences (x # xs) = x # first_occurrences (filter (\<lambda>y. y \<noteq> x) xs)"

text \<open>The summary that the iteration for one identifier pushes, if any; its link; whether
  it passes the filter.\<close>

definition produced :: "env \<Rightarrow> string \<Rightarrow> string \<Rightarrow> summary_entry option" where
  "produced E q submissionId =
     (case fst (processSubmission E q submissionId) of
        Pushed s \<Rightarrow> Some s | Abort r \<Rightarrow> None | Skip \<Rightarrow> None)"

definition link_of :: "env \<Rightarrow> string \<Rightarrow> string \<Rightarrow> string" where
  "link_of E q submissionId =
     (case produced E q submissionId of Some s \<Rightarrow> source_link s | None \<Rightarrow> [])"

definition kept :: "env \<Rightarrow> string \<Rightarrow> string \<Rightarrow> bool" where
  "kept E q submissionId =
     (case produced E q submissionId of
        Some s \<Rightarrow> isSummaryRelevant (summary s) | None \<Rightarrow> False)"

text \<open>The comments that go into the prompt, when the iteration gets as far as the summary
  call: the array is not empty, the sort returns, and every selected element can be read.\<close>

definition prompt_comments :: "element list \<Rightarrow> comment list option" where
  "prompt_comments xs =
     (if xs = [] then None
      else (case sortComments xs of
              Inl e \<Rightarrow> None
            | Inr ordered \<Rightarrow>
                if take MAX_COMMENTS_PER_POST ordered = [] then None
                else objects_of (take MAX_COMMENTS_PER_POST ordered)))"

text \<open>The value thrown by the fetch or by the summary call of one iteration, if one of
  the two calls fails.\<close>

definition failure_of :: "env \<Rightarrow> string \<Rightarrow> string \<Rightarrow> thrown option" where
  "failure_of E q submissionId =
     (case getSubmission E submissionId of
        Inl e \<Rightarrow> Some e
      | Inr sub \<Rightarrow>
          (case comments sub of
             None \<Rightarrow> None
           | Some xs \<Rightarrow>
               (case prompt_comments xs of
                  None \<Rightarrow> None
                | Some cs \<Rightarrow>
                    (case summaryCompletion E submissionId (summaryPrompt q sub cs) of
                       CallThrows e \<Rightarrow> Some e
                     | Content c \<Rightarrow> None))))"

text \<open>The final completion gives no text: the call throws, or its content is missing or
  blank.\<close>

definition synthesis_failed :: "completion \<Rightarrow> bool" where
  "synthesis_failed c =
     (case c of CallThrows e \<Rightarrow> True | Content None \<Rightarrow> True | Content (Some t) \<Rightarrow> trim t = [])"

subsection \<open>Sample data\<close>

definition not_found :: thrown where
  "not_found = \<lparr>instanceofError = True, instanceofSyntaxError = False,
                 message = ''Not Found'', statusCode = Some 404, status = None\<rparr>"

text \<open>A credential rejection as the Reddit client reports it (\<open>statusCode\<close>) and as the
  language-model client reports it (\<open>status\<close>).\<close>

definition reddit_unauthorized :: thrown where
  "reddit_unauthorized = \<lparr>instanceofError = True, instanceofSyntaxError = False,
                           message = ''Unauthorized'', statusCode = Some 401, status = None\<rparr>"

definition groq_unauthorized :: thrown where
  "groq_unauthorized = \<lparr>instanceofError = True, instanceofSyntaxError = False,
                         message = ''Invalid API Key'', statusCode = None, status = Some 401\<rparr>"

definition thread :: "string \<Rightarrow> submission" where
  "thread p = \<lparr>title = ''Which editor?'', selftext = None, permalink = Some p,
               comments = Some [Obj \<lparr>body = ''vim'', score = Some 2\<rparr>,
                                Obj \<lparr>body = ''emacs'', score = Some 5\<rparr>]\<rparr>"

text \<open>A submission whose only comment is \<open>null\<close>.\<close>

definition null_thread :: submission where
  "null_thread = \<lparr>title = ''Which editor?'', selftext = None,
                   permalink = Some ''/r/a/comments/aaaaaa/x/'', comments = Some [Null]\<rparr>"

definition fetch_null :: "string \<Rightarrow> thrown + submission" where
  "fetch_null i = Inr null_thread"

definition hit :: "string \<Rightarrow> item option" where
  "hit l = Some (Item (Some l))"

definition three_hits :: search_outcome where
  "three_hits = SearchResponse True 200 None
     (Some [hit ''https://www.reddit.com/r/a/comments/aaaaaa/x/'',
            hit ''https://www.reddit.com/r/b/comments/bbbbbb/y/'',
            hit ''https://www.reddit.com/r/c/comments/cccccc/z/''])"

definition seven_results :: "item option list" where
  "seven_results =
     [hit ''https://reddit.com/r/a/comments/aaaaaa/'',
      hit ''https://example.com/r/a/comments/zzzzzz/'',
      hit ''https://reddit.com/r/b/comments/bbbbbb'',
      hit ''https://reddit.com/r/a/comments/aaaaaa/again/'',
      None,
      hit ''https://reddit.com/r/c/comments/cccccc/'',
      hit ''https://reddit.com/r/d/comments/dddddd/'',
      hit ''https://reddit.com/r/e/comments/eeeeee/'',
      hit ''https://reddit.com/r/f/comments/ffffff/'']"

definition no_hits :: search_outcome where
  "no_hits = SearchResponse True 200 None (Some [hit ''https://example.com/editors'', None])"

definition fetch_two :: "string \<Rightarrow> thrown + submission" where
  "fetch_two i =
     (if i = ''aaaaaa'' then Inr (thread ''/r/a/comments/aaaaaa/x/'')
      else if i = ''cccccc'' then Inr (thread ''/r/c/comments/cccccc/z/'')
      else Inl not_found)"

definition fetch_rejected :: "string \<Rightarrow> thrown + submission" where
  "fetch_rejected i =
     (if i = ''aaaaaa'' then Inr (thread ''/r/a/comments/aaaaaa/x/'')
      else Inl reddit_unauthorized)"

definition sample_env ::
  "search_outcome \<Rightarrow> (string \<Rightarrow> thrown + submission) \<Rightarrow> (string \<Rightarrow> string \<Rightarrow> completion)
     \<Rightarrow> (string \<Rightarrow> completion) \<Rightarrow> env" where
  "sample_env out fetch summ fin =
     \<lparr>GOOGLE_API_KEY = Some ''key'', GOOGLE_CSE_ID = Some ''cx'', googleSearch = out,
      getSubmission = fetch, summaryCompletion = summ, finalCompletion = fin\<rparr>"

definition answer :: "string \<Rightarrow> completion" where
  "answer p = Content (Some ''## Answer'')"

definition advice :: "string \<Rightarrow> string \<Rightarrow> completion" where
  "advice i p = Content (Some ('' Use '' @ i @ ''. ''))"

definition off_topic :: "string \<Rightarrow> string \<Rightarrow> completion" where
  "off_topic i p = Content (Some ''This thread is NOT about editors.'')"

definition which :: request where
  "which = Json (Some ''which?'')"

definition env_ok :: env where
  "env_ok = sample_env three_hits fetch_two advice answer"

definition env_null :: env where
  "env_null = sample_env three_hits fetch_null advice answer"

definition rate_limited :: thrown where
  "rate_limited = \<lparr>instanceofError = True, instanceofSyntaxError = False,
                    message = ''Rate limit reached'', statusCode = None, status = Some 429\<rparr>"

definition no_answer :: "string \<Rightarrow> completion" where
  "no_answer p = CallThrows rate_limited"

definition key_rejected :: "string \<Rightarrow> string \<Rightarrow> completion" where
  "key_rejected i p = CallThrows groq_unauthorized"

definition env_none :: env where
  "env_none = sample_env no_hits fetch_two advice answer"

definition env_off :: env where
  "env_off = sample_env three_hits fetch_two off_topic answer"

definition env_synth_down :: env where
  "env_synth_down = sample_env three_hits fetch_two advice no_answer"

definition env_rejected :: env where
  "env_rejected = sample_env three_hits fetch_rejected advice answer"

definition env_key_rejected :: env where
  "env_key_rejected = sample_env three_hits fetch_two key_rejected answer"

definition two_summaries :: "summary_entry list" where
  "two_summaries =
     [\<lparr>summary = ''Use aaaaaa.'', source_link = ''https://reddit.com/r/a/comments/aaaaaa/x/''\<rparr>,
      \<lparr>summary = ''Use cccccc.'', source_link = ''https://reddit.com/r/c/comments/cccccc/z/''\<rparr>]"

definition two_off_topic :: "summary_entry list" where
  "two_off_topic =
     [\<lparr>summary = ''This thread is NOT about editors.'',
       source_link = ''https://reddit.com/r/a/comments/aaaaaa/x/''\<rparr>,
      \<lparr>summary = ''This thread is NOT about editors.'',
       source_link = ''https://reddit.com/r/c/comments/cccccc/z/''\<rparr>]"

section \<open>Auxiliary facts\<close>

subsection \<open>Evaluation on concrete inputs\<close>

lemmas char_eval =
  canonicalize_def alnum_def lower_char_def is_space_def not_slash_def char_of_def bit_Suc_0_iff

lemmas regex_eval = extractRedditSubmissionId_def match_here_def slash_or_end_def

lemmas discover_eval =
  searchStep_def hit_def discover_def visit_item_def set_add_def MAX_REDDIT_POSTS_TO_PROCESS_def

lemmas relevance_eval =
  filterRelevant_def isSummaryRelevant_def toLowerCase_def IRRELEVANT_SUMMARY_KEYWORDS_def

lemmas loop_eval =
  sample_env_def fetch_two_def fetch_rejected_def not_found_def reddit_unauthorized_def
  groq_unauthorized_def rate_limited_def thread_def advice_def off_topic_def answer_def
  no_answer_def key_rejected_def
  null_thread_def fetch_null_def type_error_def
  processSubmission_def after_catch_def loopCatch_def or_else_def trim_def
  sortComments_def object_of_def List.map_filter_simps sort_by_def compareFn_def
  effective_score_def MAX_COMMENTS_PER_POST_def

lemma three_hits_ids: "searchStep three_hits = Inr [''aaaaaa'', ''bbbbbb'', ''cccccc'']"
  by (simp add: three_hits_def discover_eval regex_eval char_eval)

lemma seven_results_ids:
  "discover (Some seven_results) = [''aaaaaa'', ''bbbbbb'', ''cccccc'', ''dddddd'', ''eeeeee'']"
  by (simp add: seven_results_def discover_eval regex_eval char_eval)

lemma no_hits_ids: "searchStep no_hits = Inr []"
  by (simp add: no_hits_def discover_eval regex_eval char_eval)

lemma topComments_thread:
  "topComments [\<lparr>body = ''vim'', score = Some 2\<rparr>, \<lparr>body = ''emacs'', score = Some 5\<rparr>]
     = [\<lparr>body = ''emacs'', score = Some 5\<rparr>, \<lparr>body = ''vim'', score = Some 2\<rparr>]"
  by (simp add: topComments_def sort_by_def compareFn_def effective_score_def
        MAX_COMMENTS_PER_POST_def)

lemma sample_env_accepted: "accepted (sample_env out fetch summ fin) which ''which?''"
  by (simp add: accepted_def sample_env_def which_def truthy_def)

lemma sample_env_search: "googleSearch (sample_env out fetch summ fin) = out"
  by (simp add: sample_env_def)

subsection \<open>The request pipeline\<close>

lemma POST_accepted: "accepted E req q \<Longrightarrow> POST E req = pipeline E q"
  by (simp add: accepted_def POST_def)

lemma processSubmission_events:
  "set (snd (processSubmission E q i)) \<subseteq> {FetchSubmission i} \<union> range (SummaryCall i)"
  by (auto simp: processSubmission_def Let_def
           split: sum.splits option.splits completion.splits if_splits)

lemma processAll_events:
  "set (snd (processAll E q acc ids)) \<subseteq> (FetchSubmission ` set ids) \<union> (\<Union>i\<in>set ids. range (SummaryCall i))"
proof (induction ids arbitrary: acc)
  case Nil
  show ?case by simp
next
  case (Cons i ids)
  obtain out evs where p: "processSubmission E q i = (out, evs)" by (cases "processSubmission E q i")
  have e: "set evs \<subseteq> {FetchSubmission i} \<union> range (SummaryCall i)"
    using processSubmission_events [of E q i] by (simp add: p)
  show ?case
  proof (cases out)
    case (Abort r)
    with p e show ?thesis by auto
  next
    case Skip
    with p e Cons.IH [of acc] show ?thesis
      by (auto split: prod.splits)
  next
    case (Pushed s)
    with p e Cons.IH [of "acc @ [s]"] show ?thesis
      by (auto split: prod.splits)
  qed
qed

lemma processAll_no_final: "FinalCall p \<notin> set (snd (processAll E q acc ids))"
  using processAll_events [of E q acc ids] by auto

lemma processAll_result:
  "fst (processAll E q acc ids) = Inr res \<Longrightarrow> res = acc @ List.map_filter (produced E q) ids"
proof (induction ids arbitrary: acc)
  case Nil
  then show ?case by (simp add: List.map_filter_simps)
next
  case (Cons i ids)
  obtain out evs where p: "processSubmission E q i = (out, evs)" by (cases "processSubmission E q i")
  show ?case
  proof (cases out)
    case (Abort r)
    with p Cons.prems show ?thesis by simp
  next
    case Skip
    with p Cons.prems have "fst (processAll E q acc ids) = Inr res"
      by (simp split: prod.splits)
    from Cons.IH [OF this] Skip p show ?thesis
      by (simp add: List.map_filter_simps produced_def)
  next
    case (Pushed s)
    with p Cons.prems have "fst (processAll E q (acc @ [s]) ids) = Inr res"
      by (simp split: prod.splits)
    from Cons.IH [OF this] Pushed p show ?thesis
      by (simp add: List.map_filter_simps produced_def)
  qed
qed

lemma pipeline_empty:
  "searchStep (googleSearch E) = Inr [] \<Longrightarrow>
   pipeline E q = (Success ''Could not find relevant Reddit discussions via Google for this question.'' [] 0, [])"
  by (simp add: pipeline_def)

lemma pipeline_unanswerable:
  assumes "searchStep (googleSearch E) = Inr ids" "ids \<noteq> []"
    and "processAll E q [] ids = (Inr initialSummaries, evs)"
    and "filterRelevant initialSummaries = []"
  shows "pipeline E q = (Success ''Found some Reddit discussions via Google, but couldn't extract direct answers.'' [] 15, evs)"
  using assms by (simp add: pipeline_def)

lemma pipeline_success:
  assumes "searchStep (googleSearch E) = Inr ids"
    and "processAll E q [] ids = (Inr initialSummaries, evs)"
    and "filterRelevant initialSummaries \<noteq> []"
  shows "pipeline E q =
           (Success (synthesize E q (filterRelevant initialSummaries))
              (map source_link (filterRelevant initialSummaries))
              (calculateConfidence (int (length (filterRelevant initialSummaries)))),
            evs @ [FinalCall (synthesisPrompt q (filterRelevant initialSummaries))])"
proof -
  have "ids \<noteq> []"
    using assms by (auto simp: filterRelevant_def)
  with assms show ?thesis
    by (simp add: pipeline_def Let_def)
qed

lemma pipeline_abort:
  assumes "searchStep (googleSearch E) = Inr ids"
    and "processAll E q [] ids = (Inl r, evs)"
  shows "pipeline E q = (r, evs)"
proof -
  have "ids \<noteq> []" using assms by auto
  with assms show ?thesis by (simp add: pipeline_def)
qed

lemma searchStep_ok: "searchStep (SearchResponse True st msg its) = Inr (discover its)"
  by (simp add: searchStep_def)

subsection \<open>The pattern matcher\<close>

lemma of_char_canonicalize: "(of_char (canonicalize c) :: nat) = upper_code (of_char c)"
proof -
  define n where "n = (of_char c :: nat)"
  have b: "n < 256" unfolding n_def by (rule nat_of_char_less_256)
  then have m: "(n - 32) mod 256 = n - 32" by simp
  show ?thesis
  proof (cases "(97 \<le> n \<and> n \<le> 122) \<or> (224 \<le> n \<and> n \<le> 254 \<and> n \<noteq> 247)")
    case True
    then have "canonicalize c = char_of (n - 32)"
      by (simp add: canonicalize_def Let_def n_def)
    then have "(of_char (canonicalize c) :: nat) = (n - 32) mod 256"
      by (simp only: of_char_of)
    with m True show ?thesis
      by (simp add: upper_code_def n_def)
  next
    case False
    then have "canonicalize c = c"
      by (auto simp: canonicalize_def Let_def n_def)
    with False show ?thesis
      by (auto simp: upper_code_def n_def)
  qed
qed

lemma of_char_lower_char: "(of_char (lower_char c) :: nat) = lower_code (of_char c)"
proof -
  define n where "n = (of_char c :: nat)"
  show ?thesis
  proof (cases "(65 \<le> n \<and> n \<le> 90) \<or> (192 \<le> n \<and> n \<le> 222 \<and> n \<noteq> 215)")
    case True
    then have "n + 32 < 256" by auto
    then have m: "(n + 32) mod 256 = n + 32" by simp
    from True have "lower_char c = char_of (n + 32)"
      by (simp add: lower_char_def Let_def n_def)
    then have "(of_char (lower_char c) :: nat) = (n + 32) mod 256"
      by (simp only: of_char_of)
    with m True show ?thesis
      by (simp add: lower_code_def n_def)
  next
    case False
    then have "lower_char c = c"
      by (auto simp: lower_char_def Let_def n_def)
    with False show ?thesis
      by (auto simp: lower_code_def n_def)
  qed
qed

lemma code_case:
  assumes "upper_code a = upper_code b"
  shows "lower_code a = lower_code b"
proof -
  let ?low = "\<lambda>n::nat. (97 \<le> n \<and> n \<le> 122) \<or> (224 \<le> n \<and> n \<le> 254 \<and> n \<noteq> 247)"
  consider (same) "a = b" | (left) "?low a" "b = a - 32" | (right) "?low b" "a = b - 32"
    using assms unfolding upper_code_def by (cases "?low a"; cases "?low b") auto
  then show ?thesis
  proof cases
    case same
    then show ?thesis by simp
  next
    case left
    then show ?thesis unfolding lower_code_def by auto
  next
    case right
    then show ?thesis unfolding lower_code_def by auto
  qed
qed

lemma canonicalize_eq_lower:
  assumes "canonicalize x = canonicalize p"
  shows "lower_char x = lower_char p"
proof -
  from assms have "(of_char (canonicalize x) :: nat) = of_char (canonicalize p)" by simp
  then have "upper_code (of_char x) = upper_code (of_char p)"
    by (simp only: of_char_canonicalize)
  then have "lower_code (of_char x) = lower_code (of_char p)"
    by (rule code_case)
  then have "(of_char (lower_char x) :: nat) = of_char (lower_char p)"
    by (simp only: of_char_lower_char)
  then show ?thesis by simp
qed

lemma alnum_ascii: "alnum c = ascii_alnum c"
proof -
  define n where "n = (of_char c :: nat)"
  have "alnum c = ((65 \<le> upper_code n \<and> upper_code n \<le> 90) \<or> (48 \<le> upper_code n \<and> upper_code n \<le> 57))"
    by (simp add: alnum_def Let_def of_char_canonicalize n_def)
  also have "\<dots> = ((48 \<le> n \<and> n \<le> 57) \<or> (65 \<le> n \<and> n \<le> 90) \<or> (97 \<le> n \<and> n \<le> 122))"
    unfolding upper_code_def
    by (cases "(97 \<le> n \<and> n \<le> 122) \<or> (224 \<le> n \<and> n \<le> 254 \<and> n \<noteq> 247)") auto
  finally show ?thesis
    by (simp add: ascii_alnum_def Let_def n_def)
qed

lemma lit_sound:
  "r \<in> set (lit p s) \<Longrightarrow> \<exists>m. s = m @ r \<and> toLowerCase m = toLowerCase p"
proof (induction p s rule: lit.induct)
  case (1 s)
  then show ?case by simp
next
  case (2 p ps)
  then show ?case by simp
next
  case (3 p ps c cs)
  from "3.prems" have eq: "canonicalize p = canonicalize c" and r: "r \<in> set (lit ps cs)"
    by (auto split: if_splits)
  from "3.IH" [OF eq r] obtain m where m: "cs = m @ r" "toLowerCase m = toLowerCase ps"
    by blast
  from eq have "lower_char c = lower_char p"
    by (rule canonicalize_eq_lower [symmetric])
  with m have "c # cs = (c # m) @ r \<and> toLowerCase (c # m) = toLowerCase (p # ps)"
    by (simp add: toLowerCase_def)
  then show ?case by blast
qed

lemma rep_sound:
  "(m, r) \<in> set (rep P lo hi s) \<Longrightarrow>
     s = m @ r \<and> lo \<le> length m \<and> length m \<le> hi \<and> list_all P m"
proof (induction s arbitrary: lo hi m)
  case Nil
  then show ?case by (simp split: if_splits)
next
  case (Cons c cs)
  from Cons.prems consider
      (more) m' where "0 < hi" "P c" "m = c # m'" "(m', r) \<in> set (rep P (lo - 1) (hi - 1) cs)"
    | (stop) "lo = 0" "m = []" "r = c # cs"
    by (auto split: if_splits)
  then show ?case
  proof cases
    case more
    from Cons.IH [OF more(4)] more(1,2,3) show ?thesis by auto
  next
    case stop
    then show ?thesis by simp
  qed
qed

lemma canonicalize_cases:
  "canonicalize x = x \<or>
   (97 \<le> (of_char x :: nat) \<and> (of_char x :: nat) \<le> 254
    \<and> canonicalize x = char_of ((of_char x :: nat) - 32))"
  unfolding canonicalize_def Let_def by (cases "(of_char x :: nat) \<le> 122") auto

lemma canonicalize_slash: "canonicalize x = CHR ''/'' \<Longrightarrow> x = CHR ''/''"
proof -
  assume a: "canonicalize x = CHR ''/''"
  define n where "n = (of_char x :: nat)"
  from canonicalize_cases [of x] show ?thesis
  proof
    assume "canonicalize x = x"
    with a show ?thesis by simp
  next
    assume "97 \<le> (of_char x :: nat) \<and> (of_char x :: nat) \<le> 254
       \<and> canonicalize x = char_of ((of_char x :: nat) - 32)"
    then have r: "97 \<le> n" "n \<le> 254" and e: "canonicalize x = char_of (n - 32)"
      by (simp_all add: n_def)
    have "(of_char (char_of (n - 32)) :: nat) = (n - 32) mod 256"
      by (rule of_char_of)
    also have "\<dots> = n - 32" using r by simp
    finally have "(of_char (canonicalize x) :: nat) = n - 32" using e by simp
    moreover have "(of_char (canonicalize x) :: nat) = 47" by (simp add: a)
    ultimately have False using r by linarith
    then show ?thesis ..
  qed
qed

lemma slash_or_end_sound: "r \<in> set (slash_or_end s) \<Longrightarrow> s = [] \<or> hd s = CHR ''/''"
proof (cases s)
  case Nil
  then show ?thesis by simp
next
  case (Cons c cs)
  assume "r \<in> set (slash_or_end s)"
  with Cons have "canonicalize CHR ''/'' = canonicalize c"
    by (auto simp: slash_or_end_def split: if_splits)
  then have "c = CHR ''/''"
    using canonicalize_slash [of c] by (simp add: canonicalize_def)
  with Cons show ?thesis by simp
qed

lemma canonicalize_slash_eq: "canonicalize CHR ''/'' = CHR ''/''"
  by (simp add: canonicalize_def)

lemma not_slash_iff: "not_slash c \<longleftrightarrow> c \<noteq> CHR ''/''"
  unfolding not_slash_def canonicalize_slash_eq
  using canonicalize_slash [of c] canonicalize_slash_eq by auto

lemma match_here_sound:
  assumes "g \<in> set (match_here s)"
  shows "thread_url_shape (pre @ s) g"
proof -
  from assms obtain r1 sub r2 r3 r4 r5 where
    1: "r1 \<in> set (lit ''reddit.com/r/'' s)" and
    2: "(sub, r2) \<in> set (rep not_slash 1 (length r1) r1)" and
    3: "r3 \<in> set (lit ''/comments/'' r2)" and
    4: "(g, r4) \<in> set (rep alnum 6 10 r3)" and
    5: "r5 \<in> set (slash_or_end r4)"
    unfolding match_here_def by auto
  from lit_sound [OF 1] obtain d where "s = d @ r1" "toLowerCase d = toLowerCase ''reddit.com/r/''"
    by blast
  then have d: "s = d @ r1" "toLowerCase d = ''reddit.com/r/''"
    by (simp_all add: toLowerCase_def lower_char_def)
  from rep_sound [OF 2] have sub: "r1 = sub @ r2" "1 \<le> length sub" "list_all not_slash sub"
    by auto
  from lit_sound [OF 3] obtain c where "r2 = c @ r3" "toLowerCase c = toLowerCase ''/comments/''"
    by blast
  then have c: "r2 = c @ r3" "toLowerCase c = ''/comments/''"
    by (simp_all add: toLowerCase_def lower_char_def)
  from rep_sound [OF 4] have g: "r3 = g @ r4" "6 \<le> length g" "length g \<le> 10" "list_all alnum g"
    by auto
  from g(4) have a: "list_all ascii_alnum g"
    by (simp add: list_all_iff alnum_ascii)
  from slash_or_end_sound [OF 5] have e: "r4 = [] \<or> hd r4 = CHR ''/''" .
  have "pre @ s = pre @ d @ sub @ c @ g @ r4"
    using d(1) sub(1) c(1) g(1) by simp
  moreover have "sub \<noteq> []" using sub(2) by auto
  moreover have "CHR ''/'' \<notin> set sub"
    using sub(3) by (auto simp: list_all_iff not_slash_iff)
  ultimately show ?thesis
    unfolding thread_url_shape_def using d(2) c(2) g(2,3) a e by blast
qed

lemma regex_match_sound: "regex_match s = Some g \<Longrightarrow> thread_url_shape (pre @ s) g"
proof (induction s arbitrary: pre)
  case Nil
  then have "g \<in> set (match_here [])" by (auto split: list.splits)
  from match_here_sound [OF this] show ?case .
next
  case (Cons c cs)
  show ?case
  proof (cases "match_here (c # cs)")
    case Nil
    with Cons.prems have "regex_match cs = Some g" by simp
    from Cons.IH [OF this, of "pre @ [c]"] show ?thesis by simp
  next
    case (Cons g' gs)
    with Cons.prems have "g \<in> set (match_here (c # cs))" by simp
    from match_here_sound [OF this] show ?thesis .
  qed
qed

lemma extract_shape: "extractRedditSubmissionId url = Some g \<Longrightarrow> thread_url_shape url g"
  using regex_match_sound [of url g "[]"] by (simp add: extractRedditSubmissionId_def)

lemma extract_nonempty: "extractRedditSubmissionId url = Some g \<Longrightarrow> g \<noteq> []"
  using extract_shape [of url g] by (auto simp: thread_url_shape_def)

lemma includes_str_sublist: "includes_str s k = sublist k s"
  by (induction s) (simp_all add: sublist_Cons_right)

subsection \<open>The discovery loop\<close>

lemma includes_str_nonempty: "includes_str l ''reddit.com'' \<Longrightarrow> l \<noteq> []"
  by auto

lemma visit_item_candidate:
  "visit_item acc it = (case candidate_of it of None \<Rightarrow> acc | Some i \<Rightarrow> set_add acc i)"
proof (cases it)
  case None
  then show ?thesis by (simp add: visit_item_def candidate_of_def)
next
  case (Some x)
  obtain lo where x: "x = Item lo" by (cases x)
  show ?thesis
  proof (cases lo)
    case None
    with Some x show ?thesis by (simp add: visit_item_def candidate_of_def)
  next
    case (Some l)
    note l = this
    show ?thesis
    proof (cases "includes_str l ''reddit.com''")
      case False
      with \<open>it = Some x\<close> x l show ?thesis by (simp add: visit_item_def candidate_of_def)
    next
      case True
      then have "l \<noteq> []" by (rule includes_str_nonempty)
      with True \<open>it = Some x\<close> x l show ?thesis
        by (auto simp: visit_item_def candidate_of_def dest: extract_nonempty split: option.splits)
    qed
  qed
qed

lemma set_first_occurrences: "set (first_occurrences xs) = set xs"
  by (induction xs rule: first_occurrences.induct) auto

lemma distinct_first_occurrences: "distinct (first_occurrences xs)"
  by (induction xs rule: first_occurrences.induct) (auto simp: set_first_occurrences)

lemma first_occurrences_distinct: "distinct xs \<Longrightarrow> first_occurrences xs = xs"
proof (induction xs)
  case Nil
  show ?case by simp
next
  case (Cons x xs)
  then have "filter (\<lambda>y. y \<noteq> x) xs = xs" by (auto intro: filter_True)
  with Cons show ?case by simp
qed

lemma collect_ids_char:
  "distinct acc \<Longrightarrow> length acc < MAX_REDDIT_POSTS_TO_PROCESS \<Longrightarrow>
   collect_ids acc xs =
     take MAX_REDDIT_POSTS_TO_PROCESS
       (acc @ first_occurrences (filter (\<lambda>i. i \<notin> set acc) (List.map_filter candidate_of xs)))"
proof (induction xs arbitrary: acc)
  case Nil
  then show ?case by (simp add: List.map_filter_simps)
next
  case (Cons x xs)
  show ?case
  proof (cases "candidate_of x")
    case None
    with Cons show ?thesis
      by (simp add: visit_item_candidate List.map_filter_simps)
  next
    case (Some i)
    show ?thesis
    proof (cases "i \<in> set acc")
      case True
      with Some Cons show ?thesis
        by (simp add: visit_item_candidate List.map_filter_simps set_add_def)
    next
      case False
      have v: "visit_item acc x = acc @ [i]"
        using Some False by (simp add: visit_item_candidate set_add_def)
      have f: "filter (\<lambda>y. y \<noteq> i) (filter (\<lambda>i. i \<notin> set acc) (List.map_filter candidate_of xs))
               = filter (\<lambda>j. j \<notin> set (acc @ [i])) (List.map_filter candidate_of xs)"
        by (auto intro: filter_cong)
      show ?thesis
      proof (cases "length (acc @ [i]) \<ge> MAX_REDDIT_POSTS_TO_PROCESS")
        case True
        with Cons.prems(2) have "length acc + 1 = MAX_REDDIT_POSTS_TO_PROCESS" by simp
        then have "MAX_REDDIT_POSTS_TO_PROCESS - length acc = Suc 0" by simp
        then have "take MAX_REDDIT_POSTS_TO_PROCESS (acc @ i # ys) = acc @ [i]" for ys
          using Cons.prems(2) by simp
        with True v Some False show ?thesis
          by (simp add: List.map_filter_simps)
      next
        case False
        note small = this
        have d: "distinct (acc @ [i])" using Cons.prems(1) \<open>i \<notin> set acc\<close> by simp
        from small have l: "length (acc @ [i]) < MAX_REDDIT_POSTS_TO_PROCESS" by simp
        from Cons.IH [OF d l] small v Some \<open>i \<notin> set acc\<close> f show ?thesis
          by (simp add: List.map_filter_simps)
      qed
    qed
  qed
qed

lemma discover_char:
  "discover its = take MAX_REDDIT_POSTS_TO_PROCESS
                    (first_occurrences (List.map_filter candidate_of (results_of its)))"
proof (cases its)
  case None
  then show ?thesis by (simp add: discover_def results_of_def List.map_filter_simps)
next
  case (Some xs)
  have "collect_ids [] xs = take MAX_REDDIT_POSTS_TO_PROCESS
                    (first_occurrences (List.map_filter candidate_of xs))"
    using collect_ids_char [of "[]" xs] by (simp add: MAX_REDDIT_POSTS_TO_PROCESS_def)
  with Some show ?thesis
    by (cases xs) (simp_all add: discover_def results_of_def List.map_filter_simps)
qed

lemma collect_ids_stops:
  "length acc < MAX_REDDIT_POSTS_TO_PROCESS \<Longrightarrow>
   length (collect_ids acc xs) \<ge> MAX_REDDIT_POSTS_TO_PROCESS \<Longrightarrow>
   collect_ids acc (xs @ ys) = collect_ids acc xs"
proof (induction xs arbitrary: acc)
  case Nil
  then show ?case by simp
next
  case (Cons x xs)
  show ?case
  proof (cases "length (visit_item acc x) \<ge> MAX_REDDIT_POSTS_TO_PROCESS")
    case True
    then show ?thesis by simp
  next
    case False
    then have l: "length (visit_item acc x) < MAX_REDDIT_POSTS_TO_PROCESS" by simp
    from Cons.prems(2) False have "length (collect_ids (visit_item acc x) xs) \<ge> MAX_REDDIT_POSTS_TO_PROCESS"
      by simp
    from Cons.IH [OF l this] False show ?thesis by simp
  qed
qed

lemma candidate_of_SomeD:
  "candidate_of it = Some i \<Longrightarrow>
   \<exists>l. it = Some (Item (Some l)) \<and> sublist ''reddit.com'' l
        \<and> extractRedditSubmissionId l = Some i \<and> thread_url_shape l i"
  by (auto simp: candidate_of_def includes_str_sublist extract_shape
           split: option.splits item.splits if_splits)

subsection \<open>Sorting the comments\<close>

lemma insert_by_insort:
  "insert_by compareFn x ys = insort_key (\<lambda>c. - effective_score c) x ys"
  by (induction ys) (auto simp: compareFn_def)

lemma sort_by_sort_key: "sort_by compareFn cs = sort_key (\<lambda>c. - effective_score c) cs"
proof -
  have "insert_by compareFn = insort_key (\<lambda>c. - effective_score c)"
    by (intro ext) (rule insert_by_insort)
  then show ?thesis by (simp add: sort_by_def sort_key_def)
qed

lemma mset_sort_by: "mset (sort_by compareFn cs) = mset cs"
  by (simp add: sort_by_sort_key)

lemma length_sort_by: "length (sort_by compareFn cs) = length cs"
  using mset_sort_by [of cs] by (metis size_mset)



lemma topComments_nonempty: "cs \<noteq> [] \<Longrightarrow> topComments cs \<noteq> []"
proof -
  assume "cs \<noteq> []"
  then have "sort_by compareFn cs \<noteq> []"
    using length_sort_by [of cs] by auto
  then show ?thesis
    by (cases "sort_by compareFn cs") (simp_all add: topComments_def MAX_COMMENTS_PER_POST_def)
qed

subsection \<open>Arrays with arbitrary elements\<close>

lemma map_filter_object_of: "List.map_filter object_of (map Obj cs) = cs"
  by (induction cs) (simp_all add: List.map_filter_simps object_of_def)

lemma sortComments_objects:
  "sortComments (map Obj cs) = Inr (map Obj (sort_by compareFn cs))"
proof -
  have "filter (\<lambda>x. x \<noteq> Undefined) (map Obj cs) = map Obj cs"
    by (induction cs) simp_all
  moreover have "filter (\<lambda>x. x = Undefined) (map Obj cs) = []"
    by (induction cs) simp_all
  moreover have "Null \<notin> set (map Obj cs)"
    by auto
  ultimately show ?thesis
    by (simp add: sortComments_def map_filter_object_of)
qed

lemma objects_of_map_Obj: "objects_of (map Obj cs) = Some cs"
  by (induction cs) simp_all

lemma obj_or_not:
  "Null \<notin> set ys \<Longrightarrow> Undefined \<notin> set ys \<Longrightarrow> length (List.map_filter object_of ys) = length ys"
proof (induction ys)
  case Nil
  show ?case by (simp add: List.map_filter_simps)
next
  case (Cons y ys)
  then show ?case
    by (cases y) (simp_all add: List.map_filter_simps object_of_def)
qed

lemma length_sortComments:
  assumes "sortComments xs = Inr ordered"
  shows "length ordered = length xs"
proof -
  let ?present = "filter (\<lambda>x. x \<noteq> Undefined) xs"
  let ?absent = "filter (\<lambda>x. x = Undefined) xs"
  have total: "length ?present + length ?absent = length xs"
    using sum_length_filter_compl [of "\<lambda>x. x \<noteq> Undefined" xs] by simp
  show ?thesis
  proof (cases "Null \<in> set ?present")
    case True
    with assms have "ordered = ?present @ ?absent"
      by (simp add: sortComments_def Let_def split: if_splits)
    with total show ?thesis by simp
  next
    case False
    with assms have s: "ordered = map Obj (sort_by compareFn (List.map_filter object_of ?present)) @ ?absent"
      by (simp add: sortComments_def Let_def)
    have "Undefined \<notin> set ?present" by simp
    with False have "length (List.map_filter object_of ?present) = length ?present"
      by (rule obj_or_not)
    with s total show ?thesis
      by (simp add: length_sort_by)
  qed
qed

lemma selection_nonempty:
  assumes "xs \<noteq> []" and "sortComments xs = Inr ordered"
  shows "take MAX_COMMENTS_PER_POST ordered \<noteq> []"
proof -
  from assms have "ordered \<noteq> []"
    using length_sortComments [OF assms(2)] by auto
  then show ?thesis
    by (cases ordered) (simp_all add: MAX_COMMENTS_PER_POST_def)
qed

lemma prompt_comments_objects:
  "cs \<noteq> [] \<Longrightarrow> prompt_comments (map Obj cs) = Some (topComments cs)"
proof -
  assume ne: "cs \<noteq> []"
  have t: "take MAX_COMMENTS_PER_POST (map Obj (sort_by compareFn cs)) = map Obj (topComments cs)"
    by (simp add: topComments_def take_map)
  from ne have "topComments cs \<noteq> []" by (rule topComments_nonempty)
  with ne show ?thesis
    by (simp add: prompt_comments_def sortComments_objects t objects_of_map_Obj)
qed

lemma prompt_comments_thread:
  "prompt_comments [Obj \<lparr>body = ''vim'', score = Some 2\<rparr>, Obj \<lparr>body = ''emacs'', score = Some 5\<rparr>]
     = Some [\<lparr>body = ''emacs'', score = Some 5\<rparr>, \<lparr>body = ''vim'', score = Some 2\<rparr>]"
  using prompt_comments_objects
          [of "[\<lparr>body = ''vim'', score = Some 2\<rparr>, \<lparr>body = ''emacs'', score = Some 5\<rparr>]"]
  by (simp add: topComments_thread)

lemma after_catch_type_error: "after_catch type_error = Skip"
  by (simp add: after_catch_def loopCatch_def type_error_def)

lemma processSubmission_without_prompt:
  assumes "getSubmission E i = Inr sub" and "comments sub = Some xs"
    and "prompt_comments xs = None"
  shows "processSubmission E q i = (Skip, [FetchSubmission i])"
proof (cases "xs = []")
  case True
  with assms show ?thesis by (simp add: processSubmission_def)
next
  case False
  show ?thesis
  proof (cases "sortComments xs")
    case (Inl e)
    then have "Null \<in> set (filter (\<lambda>x. x \<noteq> Undefined) xs)" and "e = type_error"
      by (auto simp: sortComments_def Let_def split: if_splits)
    with Inl assms False show ?thesis
      by (simp add: processSubmission_def after_catch_type_error)
  next
    case (Inr ordered)
    from selection_nonempty [OF False Inr] have n: "take MAX_COMMENTS_PER_POST ordered \<noteq> []" .
    with assms(3) False Inr have "objects_of (take MAX_COMMENTS_PER_POST ordered) = None"
      by (simp add: prompt_comments_def)
    with Inr n assms False show ?thesis
      by (simp add: processSubmission_def after_catch_type_error)
  qed
qed

lemma processSubmission_with_prompt:
  assumes "getSubmission E i = Inr sub" and "comments sub = Some xs"
    and "prompt_comments xs = Some cs"
  shows "snd (processSubmission E q i)
           = [FetchSubmission i, SummaryCall i (summaryPrompt q sub cs)]"
    and "fst (processSubmission E q i)
           = (case summaryCompletion E i (summaryPrompt q sub cs) of
                CallThrows e \<Rightarrow> after_catch e
              | Content None \<Rightarrow> Skip
              | Content (Some t) \<Rightarrow>
                  if trim t \<noteq> []
                  then Pushed \<lparr>summary = trim t,
                               source_link = ''https://reddit.com'' @ or_else (permalink sub) []\<rparr>
                  else Skip)"
proof -
  from assms(3) have ne: "xs \<noteq> []"
    by (auto simp: prompt_comments_def)
  with assms(3) obtain ordered where s: "sortComments xs = Inr ordered"
    by (cases "sortComments xs") (simp_all add: prompt_comments_def)
  from selection_nonempty [OF ne s] have n: "take MAX_COMMENTS_PER_POST ordered \<noteq> []" .
  with assms(3) ne s have o: "objects_of (take MAX_COMMENTS_PER_POST ordered) = Some cs"
    by (simp add: prompt_comments_def)
  show "snd (processSubmission E q i)
           = [FetchSubmission i, SummaryCall i (summaryPrompt q sub cs)]"
    using assms(1,2) ne s n o
    by (simp add: processSubmission_def Let_def split: completion.splits option.splits)
  show "fst (processSubmission E q i)
           = (case summaryCompletion E i (summaryPrompt q sub cs) of
                CallThrows e \<Rightarrow> after_catch e
              | Content None \<Rightarrow> Skip
              | Content (Some t) \<Rightarrow>
                  if trim t \<noteq> []
                  then Pushed \<lparr>summary = trim t,
                               source_link = ''https://reddit.com'' @ or_else (permalink sub) []\<rparr>
                  else Skip)"
    using assms(1,2) ne s n o
    by (simp add: processSubmission_def Let_def split: completion.splits option.splits)
qed

subsection \<open>The loop, the filter and the sample runs\<close>

lemma processAll_append:
  "fst (processAll E q a xs) = Inr b \<Longrightarrow>
   processAll E q a (xs @ ys)
     = (fst (processAll E q b ys), snd (processAll E q a xs) @ snd (processAll E q b ys))"
proof (induction xs arbitrary: a)
  case Nil
  then show ?case by simp
next
  case (Cons i xs)
  obtain out evs where p: "processSubmission E q i = (out, evs)"
    by (cases "processSubmission E q i")
  show ?case
  proof (cases out)
    case (Abort r)
    with p Cons.prems show ?thesis by simp
  next
    case Skip
    with p Cons.prems have "fst (processAll E q a xs) = Inr b"
      by (simp split: prod.splits)
    from Cons.IH [OF this] Skip p show ?thesis
      by (simp split: prod.splits)
  next
    case (Pushed s)
    with p Cons.prems have "fst (processAll E q (a @ [s]) xs) = Inr b"
      by (simp split: prod.splits)
    from Cons.IH [OF this] Pushed p show ?thesis
      by (simp split: prod.splits)
  qed
qed

lemma failure_of_outcome:
  assumes "failure_of E q i = Some e"
  shows "fst (processSubmission E q i) = after_catch e"
proof (cases "getSubmission E i")
  case (Inl e')
  with assms show ?thesis
    by (simp add: failure_of_def processSubmission_def)
next
  case (Inr sub)
  with assms obtain xs cs where c: "comments sub = Some xs" "prompt_comments xs = Some cs"
    and t: "summaryCompletion E i (summaryPrompt q sub cs) = CallThrows e"
    by (auto simp: failure_of_def split: option.splits completion.splits)
  from processSubmission_with_prompt(2) [OF Inr c, of q] t show ?thesis
    by simp
qed

lemma processAll_abort_step:
  "fst (processSubmission E q i) = Abort r \<Longrightarrow>
   processAll E q a (i # rest) = (Inl r, snd (processSubmission E q i))"
  by (cases "processSubmission E q i") simp

lemma processAll_skip_step:
  "fst (processSubmission E q i) = Skip \<Longrightarrow>
   processAll E q a (i # rest)
     = (fst (processAll E q a rest), snd (processSubmission E q i) @ snd (processAll E q a rest))"
  by (cases "processSubmission E q i") (simp split: prod.splits)

lemma sources_in_discovery_order:
  "map source_link (filterRelevant (List.map_filter (produced E q) ids))
     = map (link_of E q) (filter (kept E q) ids)"
  by (induction ids)
     (auto simp: List.map_filter_simps filterRelevant_def link_of_def kept_def split: option.splits)

lemma isSummaryRelevant_iff:
  "isSummaryRelevant s \<longleftrightarrow> (\<forall>k \<in> set IRRELEVANT_SUMMARY_KEYWORDS. \<not> sublist k (toLowerCase s))"
  by (simp add: isSummaryRelevant_def Let_def list_ex_iff includes_str_sublist)

lemma marker_excludes:
  assumes "toLowerCase v = ''is not about''"
  shows "\<not> isSummaryRelevant (pre @ v @ post)"
proof -
  have "toLowerCase (pre @ v @ post) = toLowerCase pre @ ''is not about'' @ toLowerCase post"
    using assms by (simp add: toLowerCase_def)
  then have "sublist ''is not about'' (toLowerCase (pre @ v @ post))"
    by (simp only: sublist_appendI)
  moreover have "''is not about'' \<in> set IRRELEVANT_SUMMARY_KEYWORDS"
    by (simp add: IRRELEVANT_SUMMARY_KEYWORDS_def)
  ultimately show ?thesis
    unfolding isSummaryRelevant_iff by blast
qed

lemma filterRelevant_greatest:
  assumes "subseq ys xs" and "\<forall>e \<in> set ys. isSummaryRelevant (summary e)"
  shows "subseq ys (filterRelevant xs)"
proof -
  have "filter (\<lambda>e. isSummaryRelevant (summary e)) ys = ys"
    using assms(2) by (simp add: filter_id_conv)
  moreover have "subseq (filter (\<lambda>e. isSummaryRelevant (summary e)) ys)
                        (filter (\<lambda>e. isSummaryRelevant (summary e)) xs)"
    using assms(1) by (rule subseq_filter)
  ultimately show ?thesis by (simp add: filterRelevant_def)
qed

lemma loop_advice:
  "fst (processAll (sample_env out fetch_two advice fin) ''which?'' []
          [''aaaaaa'', ''bbbbbb'', ''cccccc'']) = Inr two_summaries"
  by (simp add: two_summaries_def loop_eval topComments_thread char_eval)

lemma loop_off_topic:
  "fst (processAll (sample_env out fetch_two off_topic fin) ''which?'' []
          [''aaaaaa'', ''bbbbbb'', ''cccccc'']) = Inr two_off_topic"
  by (simp add: two_off_topic_def loop_eval topComments_thread char_eval)

lemma loop_key_rejected:
  "fst (processAll (sample_env out fetch_two key_rejected fin) ''which?'' []
          [''aaaaaa'', ''bbbbbb'', ''cccccc'']) = Inr []"
  by (simp add: loop_eval topComments_thread char_eval)

lemma relevant_two_summaries: "filterRelevant two_summaries = two_summaries"
  by (simp add: two_summaries_def relevance_eval char_eval)

lemma relevant_two_off_topic: "filterRelevant two_off_topic = []"
  by (simp add: two_off_topic_def relevance_eval char_eval)

lemma pipeline_unanswerable_fst:
  assumes "searchStep (googleSearch E) = Inr ids" "ids \<noteq> []"
    and "fst (processAll E q [] ids) = Inr initialSummaries"
    and "filterRelevant initialSummaries = []"
  shows "pipeline E q =
    (Success ''Found some Reddit discussions via Google, but couldn't extract direct answers.'' [] 15,
     snd (processAll E q [] ids))"
proof -
  from assms(3) have "processAll E q [] ids = (Inr initialSummaries, snd (processAll E q [] ids))"
    by (cases "processAll E q [] ids") simp
  from pipeline_unanswerable [OF assms(1,2) this assms(4)] show ?thesis .
qed

lemma pipeline_success_fst:
  assumes "searchStep (googleSearch E) = Inr ids"
    and "fst (processAll E q [] ids) = Inr initialSummaries"
    and "filterRelevant initialSummaries \<noteq> []"
  shows "fst (pipeline E q) =
           Success (synthesize E q (filterRelevant initialSummaries))
              (map source_link (filterRelevant initialSummaries))
              (calculateConfidence (int (length (filterRelevant initialSummaries))))"
proof -
  from assms(2) have "processAll E q [] ids = (Inr initialSummaries, snd (processAll E q [] ids))"
    by (cases "processAll E q [] ids") simp
  from pipeline_success [OF assms(1) this assms(3)] show ?thesis by simp
qed

section \<open>The claims\<close>

text \<open>
  \<^bold>\<open>C1.\<close> In every run in which \<open>N \<ge> 1\<close> summaries pass the relevance filter and go into
  the synthesis, the \<open>confidenceScore\<close> of the response is \<open>min (50 + 10 * N) 95\<close>: one
  source gives 60, three give 80, and no count gives more than 95.
\<close>
theorem C1_confidence_formula:
  assumes "accepted E req q"
    and "searchStep (googleSearch E) = Inr ids"
    and "fst (processAll E q [] ids) = Inr initialSummaries"
    and "N = length (filterRelevant initialSummaries)"
    and "N \<ge> 1"
  shows "confidenceScore (fst (POST E req)) = min (50 + 10 * int N) 95
         \<and> confidenceScore (fst (POST E req)) \<le> 95
         \<and> calculateConfidence 1 = 60 \<and> calculateConfidence 3 = 80
         \<and> (\<forall>n. calculateConfidence n \<le> 95)"
proof -
  have ne: "filterRelevant initialSummaries \<noteq> []"
    using assms(4,5) by auto
  have "confidenceScore (fst (POST E req)) = calculateConfidence (int N)"
    using POST_accepted [OF assms(1)] pipeline_success_fst [OF assms(2,3) ne] assms(4) by simp
  then show ?thesis
    by (simp add: calculateConfidence_def Let_def mult.commute)
qed

theorem C1_confidence_formula_witness:
  "confidenceScore (fst (POST env_ok which)) = 70"
proof -
  have a: "accepted env_ok which ''which?''"
    unfolding env_ok_def by (rule sample_env_accepted)
  have s: "searchStep (googleSearch env_ok) = Inr [''aaaaaa'', ''bbbbbb'', ''cccccc'']"
    by (simp add: env_ok_def sample_env_search three_hits_ids)
  have l: "fst (processAll env_ok ''which?'' [] [''aaaaaa'', ''bbbbbb'', ''cccccc'']) = Inr two_summaries"
    unfolding env_ok_def by (rule loop_advice)
  have n: "(2::nat) = length (filterRelevant two_summaries)"
    by (simp add: relevant_two_summaries) (simp add: two_summaries_def)
  show ?thesis
    using C1_confidence_formula [OF a s l n] by simp
qed

text \<open>
  \<^bold>\<open>C2.\<close> When the fetch or the summary call of a candidate fails with a value
  whose \<open>statusCode\<close> property is the number 401, the request ends at once with the error
  \<open>Reddit authentication failed.\<close> and status 401, and no later candidate is touched. Every
  other failure of these two calls, a credential rejection that carries \<open>status\<close> instead of
  \<open>statusCode\<close> included, pushes no summary, and the loop goes on with the next identifier
  and the summaries collected so far.
\<close>
theorem C2_status_code_401:
  assumes "accepted E req q"
    and "searchStep (googleSearch E) = Inr (pre @ i # rest)"
    and "fst (processAll E q [] pre) = Inr acc"
    and "failure_of E q i = Some e"
  shows "(statusCode e = Some 401 \<longrightarrow>
            POST E req = (Failure ''Reddit authentication failed.'' 401,
                          snd (processAll E q [] pre) @ snd (processSubmission E q i)))
       \<and> (statusCode e \<noteq> Some 401 \<longrightarrow>
            processAll E q [] (pre @ i # rest)
              = (fst (processAll E q acc rest),
                 snd (processAll E q [] pre) @ snd (processSubmission E q i)
                   @ snd (processAll E q acc rest)))"
proof (intro conjI impI)
  assume "statusCode e = Some 401"
  then have "fst (processSubmission E q i) = Abort (Failure ''Reddit authentication failed.'' 401)"
    using failure_of_outcome [OF assms(4)] by (simp add: after_catch_def loopCatch_def)
  from processAll_abort_step [OF this, of acc rest] processAll_append [OF assms(3), of "i # rest"]
  have "processAll E q [] (pre @ i # rest)
          = (Inl (Failure ''Reddit authentication failed.'' 401),
             snd (processAll E q [] pre) @ snd (processSubmission E q i))"
    by simp
  from pipeline_abort [OF assms(2) this] POST_accepted [OF assms(1)]
  show "POST E req = (Failure ''Reddit authentication failed.'' 401,
                          snd (processAll E q [] pre) @ snd (processSubmission E q i))"
    by simp
next
  assume "statusCode e \<noteq> Some 401"
  then have "fst (processSubmission E q i) = Skip"
    using failure_of_outcome [OF assms(4)] by (simp add: after_catch_def loopCatch_def)
  from processAll_skip_step [OF this, of acc rest] processAll_append [OF assms(3), of "i # rest"]
  show "processAll E q [] (pre @ i # rest)
              = (fst (processAll E q acc rest),
                 snd (processAll E q [] pre) @ snd (processSubmission E q i)
                   @ snd (processAll E q acc rest))"
    by simp
qed

text \<open>The Reddit client rejects the credentials on the second of three candidates.\<close>
theorem C2_status_code_401_witness:
  "fst (POST env_rejected which) = Failure ''Reddit authentication failed.'' 401"
proof -
  have a: "accepted env_rejected which ''which?''"
    unfolding env_rejected_def by (rule sample_env_accepted)
  have s: "searchStep (googleSearch env_rejected) = Inr ([''aaaaaa''] @ ''bbbbbb'' # [''cccccc''])"
    by (simp add: env_rejected_def sample_env_search three_hits_ids)
  have l: "fst (processAll env_rejected ''which?'' [] [''aaaaaa''])
             = Inr [\<lparr>summary = ''Use aaaaaa.'',
                     source_link = ''https://reddit.com/r/a/comments/aaaaaa/x/''\<rparr>]"
    by (simp add: env_rejected_def loop_eval topComments_thread char_eval)
  have f: "failure_of env_rejected ''which?'' ''bbbbbb'' = Some reddit_unauthorized"
    by (simp add: failure_of_def env_rejected_def sample_env_def fetch_rejected_def)
  have c: "statusCode reddit_unauthorized = Some 401"
    by (simp add: reddit_unauthorized_def)
  show ?thesis
    using C2_status_code_401 [OF a s l f] c by simp
qed

text \<open>
  Not every credential rejection ends the request. A rejection by the language model
  carries \<open>status = 401\<close> and no \<open>statusCode\<close>; the loop skips the candidate, and here the
  request ends with a success response.
\<close>
theorem C2_llm_rejection_counterexample:
  "failure_of env_key_rejected ''which?'' ''aaaaaa'' = Some groq_unauthorized
   \<and> status groq_unauthorized = Some 401
   \<and> fst (POST env_key_rejected which) =
       Success ''Found some Reddit discussions via Google, but couldn't extract direct answers.'' [] 15"
proof -
  have a: "accepted env_key_rejected which ''which?''"
    unfolding env_key_rejected_def by (rule sample_env_accepted)
  have s: "searchStep (googleSearch env_key_rejected) = Inr [''aaaaaa'', ''bbbbbb'', ''cccccc'']"
    by (simp add: env_key_rejected_def sample_env_search three_hits_ids)
  have l: "fst (processAll env_key_rejected ''which?'' [] [''aaaaaa'', ''bbbbbb'', ''cccccc'']) = Inr []"
    unfolding env_key_rejected_def by (rule loop_key_rejected)
  have f: "failure_of env_key_rejected ''which?'' ''aaaaaa'' = Some groq_unauthorized"
    by (simp add: failure_of_def env_key_rejected_def sample_env_def fetch_two_def thread_def
          key_rejected_def prompt_comments_thread)
  have "fst (pipeline env_key_rejected ''which?'') =
       Success ''Found some Reddit discussions via Google, but couldn't extract direct answers.'' [] 15"
    using pipeline_unanswerable_fst [OF s _ l] by (simp add: filterRelevant_def)
  with f show ?thesis
    using POST_accepted [OF a] by (simp add: groq_unauthorized_def)
qed

text \<open>
  \<^bold>\<open>C3.\<close> When the search answers successfully and no identifier is extracted, the response is
  exactly the \<open>Could not find relevant Reddit discussions\<close> message with no sources and
  confidence 0, and the run makes no call to Reddit or to the language model.
\<close>
theorem C3_no_candidates:
  assumes "accepted E req q"
    and "googleSearch E = SearchResponse True st msg its"
    and "discover its = []"
  shows "POST E req =
           (Success ''Could not find relevant Reddit discussions via Google for this question.'' [] 0, [])"
proof -
  have "searchStep (googleSearch E) = Inr []"
    using assms(2,3) by (simp add: searchStep_ok)
  then show ?thesis
    using POST_accepted [OF assms(1)] by (simp add: pipeline_empty)
qed

theorem C3_no_candidates_witness:
  "POST env_none which =
     (Success ''Could not find relevant Reddit discussions via Google for this question.'' [] 0, [])"
proof -
  have a: "accepted env_none which ''which?''"
    unfolding env_none_def by (rule sample_env_accepted)
  have s: "googleSearch env_none
             = SearchResponse True 200 None (Some [hit ''https://example.com/editors'', None])"
    by (simp add: env_none_def sample_env_search no_hits_def)
  have d: "discover (Some [hit ''https://example.com/editors'', None]) = []"
    using no_hits_ids by (simp add: no_hits_def searchStep_ok)
  show ?thesis
    using C3_no_candidates [OF a s d] .
qed

text \<open>
  \<^bold>\<open>C4.\<close> When identifiers are found, the loop over them ends without an authentication
  abort, and no summary passes the relevance filter, the response is the fixed
  \<open>Found some Reddit discussions\<close> message with no sources and confidence 15, and the run
  contains no synthesis call.
\<close>
theorem C4_unanswerable:
  assumes "accepted E req q"
    and "googleSearch E = SearchResponse True st msg its"
    and "discover its \<noteq> []"
    and "fst (processAll E q [] (discover its)) = Inr initialSummaries"
    and "filterRelevant initialSummaries = []"
  shows "POST E req =
           (Success ''Found some Reddit discussions via Google, but couldn't extract direct answers.'' [] 15,
            snd (processAll E q [] (discover its)))
         \<and> (\<forall>p. FinalCall p \<notin> set (snd (POST E req)))"
proof -
  have s: "searchStep (googleSearch E) = Inr (discover its)"
    using assms(2) by (simp add: searchStep_ok)
  have "POST E req =
           (Success ''Found some Reddit discussions via Google, but couldn't extract direct answers.'' [] 15,
            snd (processAll E q [] (discover its)))"
    using POST_accepted [OF assms(1)] pipeline_unanswerable_fst [OF s assms(3,4,5)] by simp
  then show ?thesis
    by (simp add: processAll_no_final)
qed

theorem C4_unanswerable_witness:
  "fst (POST env_off which) =
     Success ''Found some Reddit discussions via Google, but couldn't extract direct answers.'' [] 15"
proof -
  let ?its = "Some [hit ''https://www.reddit.com/r/a/comments/aaaaaa/x/'',
            hit ''https://www.reddit.com/r/b/comments/bbbbbb/y/'',
            hit ''https://www.reddit.com/r/c/comments/cccccc/z/'']"
  have a: "accepted env_off which ''which?''"
    unfolding env_off_def by (rule sample_env_accepted)
  have s: "googleSearch env_off = SearchResponse True 200 None ?its"
    by (simp add: env_off_def sample_env_search three_hits_def)
  have d: "discover ?its = [''aaaaaa'', ''bbbbbb'', ''cccccc'']"
    using three_hits_ids by (simp add: three_hits_def searchStep_ok)
  have n: "discover ?its \<noteq> []"
    by (simp add: d)
  have l: "fst (processAll env_off ''which?'' [] (discover ?its)) = Inr two_off_topic"
    unfolding env_off_def d by (rule loop_off_topic)
  show ?thesis
    using C4_unanswerable [OF a s n l relevant_two_off_topic] by simp
qed

text \<open>
  \<^bold>\<open>C5.\<close> A summary is relevant exactly when its lower-cased text contains none of the seven
  marker strings. A summary that contains \<open>is not about\<close> in any mix of cases is excluded
  whatever surrounds it. The filter returns the subsequence of its input, in the input's
  order, of the entries whose summary is relevant: every entry of the result is relevant, and
  every subsequence of relevant entries of the input is a subsequence of the result.
\<close>
theorem C5_relevance_filter:
  "(isSummaryRelevant s \<longleftrightarrow>
      (\<forall>k \<in> set IRRELEVANT_SUMMARY_KEYWORDS. \<not> sublist k (toLowerCase s)))
   \<and> length IRRELEVANT_SUMMARY_KEYWORDS = 7
   \<and> (\<forall>pre v post. toLowerCase v = ''is not about'' \<longrightarrow> \<not> isSummaryRelevant (pre @ v @ post))
   \<and> filterRelevant xs = filter (\<lambda>e. isSummaryRelevant (summary e)) xs
   \<and> subseq (filterRelevant xs) xs
   \<and> (\<forall>e \<in> set (filterRelevant xs). isSummaryRelevant (summary e))
   \<and> (\<forall>ys. subseq ys xs \<and> (\<forall>e \<in> set ys. isSummaryRelevant (summary e))
            \<longrightarrow> subseq ys (filterRelevant xs))"
proof -
  have 1: "isSummaryRelevant s \<longleftrightarrow>
      (\<forall>k \<in> set IRRELEVANT_SUMMARY_KEYWORDS. \<not> sublist k (toLowerCase s))"
    by (rule isSummaryRelevant_iff)
  have 2: "length IRRELEVANT_SUMMARY_KEYWORDS = 7"
    by (simp add: IRRELEVANT_SUMMARY_KEYWORDS_def)
  have 3: "\<forall>pre v post. toLowerCase v = ''is not about'' \<longrightarrow> \<not> isSummaryRelevant (pre @ v @ post)"
    using marker_excludes by blast
  have 4: "filterRelevant xs = filter (\<lambda>e. isSummaryRelevant (summary e)) xs"
    by (simp add: filterRelevant_def)
  have 5: "subseq (filterRelevant xs) xs"
    by (simp add: filterRelevant_def)
  have 6: "\<forall>e \<in> set (filterRelevant xs). isSummaryRelevant (summary e)"
    by (simp add: filterRelevant_def)
  have 7: "\<forall>ys. subseq ys xs \<and> (\<forall>e \<in> set ys. isSummaryRelevant (summary e))
            \<longrightarrow> subseq ys (filterRelevant xs)"
    using filterRelevant_greatest by blast
  from 1 2 3 4 5 6 7 show ?thesis by blast
qed

theorem C5_relevance_filter_witness:
  "\<not> isSummaryRelevant ''This thread IS NOT ABOUT editors.''
   \<and> isSummaryRelevant ''Use vim.''
   \<and> filterRelevant two_off_topic = []"
proof -
  have l: "toLowerCase ''IS NOT ABOUT'' = ''is not about''"
    by (simp add: toLowerCase_def char_eval)
  have "\<not> isSummaryRelevant (''This thread '' @ ''IS NOT ABOUT'' @ '' editors.'')"
    using C5_relevance_filter [of "[]" "[]"] l by blast
  moreover have "isSummaryRelevant ''Use vim.''"
    using C5_relevance_filter [of "''Use vim.''" "[]"]
    by (simp add: toLowerCase_def IRRELEVANT_SUMMARY_KEYWORDS_def char_eval
          flip: includes_str_sublist)
  ultimately show ?thesis
    by (simp add: relevant_two_off_topic)
qed

text \<open>
  \<^bold>\<open>C6.\<close> For every list of search results the discovered identifiers are distinct, are at
  most 5, and are the first 5 of the identifiers of the results in the order of their first
  occurrence; every one of them was extracted from a link that contains \<open>reddit.com\<close> and
  has the thread URL shape with an identifier of 6 to 10 alphanumeric units. Once 5
  identifiers are collected, further results change nothing.
\<close>
theorem C6_discovery:
  fixes its :: "item option list option"
  defines "ids \<equiv> discover its"
  shows "distinct ids
       \<and> length ids \<le> 5
       \<and> ids = take 5 (first_occurrences (List.map_filter candidate_of (results_of its)))
       \<and> (\<forall>i \<in> set ids. \<exists>l. Some (Item (Some l)) \<in> set (results_of its)
                               \<and> sublist ''reddit.com'' l
                               \<and> extractRedditSubmissionId l = Some i
                               \<and> thread_url_shape l i)
       \<and> (\<forall>xs ys. length (discover (Some xs)) = 5 \<longrightarrow> discover (Some (xs @ ys)) = discover (Some xs))"
proof -
  have c: "ids = take 5 (first_occurrences (List.map_filter candidate_of (results_of its)))"
    unfolding ids_def discover_char by (simp add: MAX_REDDIT_POSTS_TO_PROCESS_def)
  have d: "distinct ids"
    unfolding c by (simp add: distinct_first_occurrences)
  have l: "length ids \<le> 5"
    unfolding c by simp
  have m: "\<exists>l. Some (Item (Some l)) \<in> set (results_of its) \<and> sublist ''reddit.com'' l
               \<and> extractRedditSubmissionId l = Some i \<and> thread_url_shape l i"
    if "i \<in> set ids" for i
  proof -
    from that have "i \<in> set (first_occurrences (List.map_filter candidate_of (results_of its)))"
      unfolding c by (rule in_set_takeD)
    then have "i \<in> set (List.map_filter candidate_of (results_of its))"
      by (simp add: set_first_occurrences)
    then obtain it where "it \<in> set (results_of its)" "candidate_of it = Some i"
      by (auto simp: List.map_filter_def)
    with candidate_of_SomeD [of it i] show ?thesis by auto
  qed
  have s: "discover (Some (xs @ ys)) = discover (Some xs)" if "length (discover (Some xs)) = 5" for xs ys
  proof -
    from that have ne: "xs \<noteq> []" by (auto simp: discover_def)
    with that have "length (collect_ids [] xs) \<ge> MAX_REDDIT_POSTS_TO_PROCESS"
      by (simp add: discover_def MAX_REDDIT_POSTS_TO_PROCESS_def)
    from collect_ids_stops [OF _ this, of ys] ne show ?thesis
      by (simp add: discover_def MAX_REDDIT_POSTS_TO_PROCESS_def)
  qed
  from c d l m s show ?thesis by blast
qed

theorem C6_discovery_witness:
  "distinct (discover (Some seven_results)) \<and> length (discover (Some seven_results)) = 5
   \<and> (\<exists>l. Some (Item (Some l)) \<in> set seven_results \<and> thread_url_shape l ''bbbbbb'')"
proof -
  note t = C6_discovery [of "Some seven_results"]
  from t have d: "distinct (discover (Some seven_results))"
    by (rule conjunct1)
  from t have "\<forall>i \<in> set (discover (Some seven_results)).
                 \<exists>l. Some (Item (Some l)) \<in> set (results_of (Some seven_results))
                     \<and> sublist ''reddit.com'' l
                     \<and> extractRedditSubmissionId l = Some i
                     \<and> thread_url_shape l i"
    by blast
  moreover have "''bbbbbb'' \<in> set (discover (Some seven_results))"
    by (simp add: seven_results_ids)
  ultimately have "\<exists>l. Some (Item (Some l)) \<in> set (results_of (Some seven_results))
                     \<and> sublist ''reddit.com'' l
                     \<and> extractRedditSubmissionId l = Some ''bbbbbb''
                     \<and> thread_url_shape l ''bbbbbb''"
    by (rule bspec)
  then have "\<exists>l. Some (Item (Some l)) \<in> set seven_results \<and> thread_url_shape l ''bbbbbb''"
    by (auto simp: results_of_def)
  with d show ?thesis
    by (simp add: seven_results_ids)
qed



text \<open>
  \<^bold>\<open>C8.\<close> In a run that reaches the synthesis, a final completion that throws makes
  \<open>finalSummary\<close> the message \<open>Error occurred while synthesizing the final answer.\<close>, and
  one without text makes it \<open>Could not synthesize a final answer.\<close>; in both cases the
  response is a success response with the links of the relevant summaries and the confidence
  computed from their number.
\<close>
theorem C8_synthesis_failure:
  assumes "accepted E req q"
    and "searchStep (googleSearch E) = Inr ids"
    and "fst (processAll E q [] ids) = Inr initialSummaries"
    and "relevant = filterRelevant initialSummaries"
    and "relevant \<noteq> []"
    and "synthesis_failed (finalCompletion E (synthesisPrompt q relevant))"
  shows "fst (POST E req) =
           Success (case finalCompletion E (synthesisPrompt q relevant) of
                      CallThrows e \<Rightarrow> ''Error occurred while synthesizing the final answer.''
                    | Content c \<Rightarrow> ''Could not synthesize a final answer.'')
             (map source_link relevant)
             (calculateConfidence (int (length relevant)))"
proof -
  have ne: "filterRelevant initialSummaries \<noteq> []"
    using assms(4,5) by simp
  have "synthesize E q relevant =
          (case finalCompletion E (synthesisPrompt q relevant) of
             CallThrows e \<Rightarrow> ''Error occurred while synthesizing the final answer.''
           | Content c \<Rightarrow> ''Could not synthesize a final answer.'')"
    using assms(6)
    by (auto simp: synthesize_def synthesis_failed_def split: completion.splits option.splits)
  then show ?thesis
    using POST_accepted [OF assms(1)] pipeline_success_fst [OF assms(2,3) ne] assms(4) by simp
qed

theorem C8_synthesis_failure_witness:
  "fst (POST env_synth_down which) =
     Success ''Error occurred while synthesizing the final answer.''
       [''https://reddit.com/r/a/comments/aaaaaa/x/'', ''https://reddit.com/r/c/comments/cccccc/z/'']
       70"
proof -
  have a: "accepted env_synth_down which ''which?''"
    unfolding env_synth_down_def by (rule sample_env_accepted)
  have s: "searchStep (googleSearch env_synth_down) = Inr [''aaaaaa'', ''bbbbbb'', ''cccccc'']"
    by (simp add: env_synth_down_def sample_env_search three_hits_ids)
  have l: "fst (processAll env_synth_down ''which?'' [] [''aaaaaa'', ''bbbbbb'', ''cccccc''])
             = Inr two_summaries"
    unfolding env_synth_down_def by (rule loop_advice)
  have r: "two_summaries = filterRelevant two_summaries"
    by (simp add: relevant_two_summaries)
  have n: "two_summaries \<noteq> []"
    by (simp add: two_summaries_def)
  have c: "finalCompletion env_synth_down p = CallThrows rate_limited" for p
    by (simp add: env_synth_down_def sample_env_def no_answer_def)
  have f: "synthesis_failed (finalCompletion env_synth_down (synthesisPrompt ''which?'' two_summaries))"
    by (simp add: c synthesis_failed_def)
  show ?thesis
    using C8_synthesis_failure [OF a s l r n f]
    by (simp add: c) (simp add: two_summaries_def calculateConfidence_def)
qed

text \<open>
  \<^bold>\<open>C9.\<close> In a successful run the sources of the response are the links of those discovered
  identifiers, in discovery order, whose summary was pushed and is relevant; the relevant
  summaries are a subsequence of the summaries pushed, and so are their links.
\<close>
theorem C9_source_order:
  assumes "accepted E req q"
    and "searchStep (googleSearch E) = Inr ids"
    and "fst (processAll E q [] ids) = Inr initialSummaries"
    and "filterRelevant initialSummaries \<noteq> []"
  shows "sources (fst (POST E req)) = map (link_of E q) (filter (kept E q) ids)
       \<and> sources (fst (POST E req)) = map source_link (filterRelevant initialSummaries)
       \<and> initialSummaries = List.map_filter (produced E q) ids
       \<and> subseq (filterRelevant initialSummaries) initialSummaries
       \<and> subseq (map source_link (filterRelevant initialSummaries))
                (map source_link initialSummaries)"
proof -
  have i: "initialSummaries = List.map_filter (produced E q) ids"
    using processAll_result [OF assms(3)] by simp
  have s: "sources (fst (POST E req)) = map source_link (filterRelevant initialSummaries)"
    using POST_accepted [OF assms(1)] pipeline_success_fst [OF assms(2,3,4)] by simp
  have o: "sources (fst (POST E req)) = map (link_of E q) (filter (kept E q) ids)"
    unfolding s i by (rule sources_in_discovery_order)
  have f: "subseq (filterRelevant initialSummaries) initialSummaries"
    by (simp add: filterRelevant_def)
  from subseq_map [OF f] i s o f show ?thesis by blast
qed

theorem C9_source_order_witness:
  "sources (fst (POST env_ok which)) =
     [link_of env_ok ''which?'' ''aaaaaa'', link_of env_ok ''which?'' ''cccccc'']
   \<and> sources (fst (POST env_ok which)) =
       [''https://reddit.com/r/a/comments/aaaaaa/x/'', ''https://reddit.com/r/c/comments/cccccc/z/'']"
proof -
  have a: "accepted env_ok which ''which?''"
    unfolding env_ok_def by (rule sample_env_accepted)
  have s: "searchStep (googleSearch env_ok) = Inr [''aaaaaa'', ''bbbbbb'', ''cccccc'']"
    by (simp add: env_ok_def sample_env_search three_hits_ids)
  have l: "fst (processAll env_ok ''which?'' [] [''aaaaaa'', ''bbbbbb'', ''cccccc'']) = Inr two_summaries"
    unfolding env_ok_def by (rule loop_advice)
  have n: "filterRelevant two_summaries \<noteq> []"
    by (simp add: relevant_two_summaries) (simp add: two_summaries_def)
  have k: "filter (kept env_ok ''which?'') [''aaaaaa'', ''bbbbbb'', ''cccccc''] = [''aaaaaa'', ''cccccc'']"
    by (simp add: kept_def produced_def env_ok_def loop_eval topComments_thread relevance_eval char_eval)
  note t = C9_source_order [OF a s l n]
  from t have "sources (fst (POST env_ok which))
                 = map (link_of env_ok ''which?'')
                     (filter (kept env_ok ''which?'') [''aaaaaa'', ''bbbbbb'', ''cccccc''])"
    by (rule conjunct1)
  then have 1: "sources (fst (POST env_ok which)) =
                  [link_of env_ok ''which?'' ''aaaaaa'', link_of env_ok ''which?'' ''cccccc'']"
    by (simp only: k list.map)
  from t have "sources (fst (POST env_ok which)) = map source_link (filterRelevant two_summaries)"
    by blast
  then have 2: "sources (fst (POST env_ok which)) =
       [''https://reddit.com/r/a/comments/aaaaaa/x/'', ''https://reddit.com/r/c/comments/cccccc/z/'']"
    by (simp add: relevant_two_summaries) (simp add: two_summaries_def)
  from 1 2 show ?thesis ..
qed

text \<open>
  \<^bold>\<open>C10.\<close> For a fetched submission whose \<open>comments\<close> is a non-empty array the truncated
  sorted list is never empty, so the second skip test is never taken. When every element of
  the array is an object, the iteration makes the summary call, with the top comments in the
  prompt.
\<close>
theorem C10_summary_reached:
  assumes "getSubmission E submissionId = Inr sub"
    and "comments sub = Some (map Obj cs)"
    and "cs \<noteq> []"
  shows "topComments cs \<noteq> []
       \<and> snd (processSubmission E q submissionId)
           = [FetchSubmission submissionId,
              SummaryCall submissionId (summaryPrompt q sub (topComments cs))]
       \<and> (\<forall>xs ordered. xs \<noteq> [] \<and> sortComments xs = Inr ordered
              \<longrightarrow> take MAX_COMMENTS_PER_POST ordered \<noteq> [])"
proof -
  have t: "topComments cs \<noteq> []"
    using assms(3) by (rule topComments_nonempty)
  have p: "prompt_comments (map Obj cs) = Some (topComments cs)"
    using assms(3) by (rule prompt_comments_objects)
  have c: "snd (processSubmission E q submissionId)
           = [FetchSubmission submissionId,
              SummaryCall submissionId (summaryPrompt q sub (topComments cs))]"
    using assms(1,2) p by (rule processSubmission_with_prompt(1))
  from t c selection_nonempty show ?thesis by blast
qed

theorem C10_summary_reached_witness:
  "snd (processSubmission env_ok ''which?'' ''aaaaaa'')
     = [FetchSubmission ''aaaaaa'',
        SummaryCall ''aaaaaa''
          (summaryPrompt ''which?'' (thread ''/r/a/comments/aaaaaa/x/'')
             [\<lparr>body = ''emacs'', score = Some 5\<rparr>, \<lparr>body = ''vim'', score = Some 2\<rparr>])]"
proof -
  have g: "getSubmission env_ok ''aaaaaa'' = Inr (thread ''/r/a/comments/aaaaaa/x/'')"
    by (simp add: env_ok_def sample_env_def fetch_two_def)
  have c: "comments (thread ''/r/a/comments/aaaaaa/x/'')
             = Some (map Obj [\<lparr>body = ''vim'', score = Some 2\<rparr>,
                              \<lparr>body = ''emacs'', score = Some 5\<rparr>])"
    by (simp add: thread_def)
  have n: "[\<lparr>body = ''vim'', score = Some 2\<rparr>, \<lparr>body = ''emacs'', score = Some 5\<rparr>] \<noteq> []"
    by simp
  show ?thesis
    using C10_summary_reached [OF g c n, of "''which?''"] by (simp add: topComments_thread)
qed

text \<open>
  An element of the array need not be an object. The array \<open>[null]\<close> is not empty and its
  truncated sorted list is \<open>[null]\<close>; reading \<open>body\<close> of its element throws, the \<open>catch\<close>
  clause skips the submission, and the summary call is not made.
\<close>
theorem C10_null_element_counterexample:
  "getSubmission env_null ''aaaaaa'' = Inr null_thread
   \<and> comments null_thread = Some [Null]
   \<and> sortComments [Null] = Inr [Null]
   \<and> processSubmission env_null ''which?'' ''aaaaaa'' = (Skip, [FetchSubmission ''aaaaaa''])"
  by (simp add: env_null_def loop_eval)

end
